theory Spec2Isabelle
  imports Complex_Main "HOL-Library.Signed_Division" "HOL-Library.Multiset"
begin

section \<open>Go values and library functions used by the package\<close>

text \<open>
  A Go \<^verbatim>\<open>string\<close> is a sequence of bytes and \<^verbatim>\<open>len\<close> counts bytes, which is what
  \<^typ>\<open>string\<close> (a list of 8-bit characters) is. A run-time panic of the Go code is the
  value \<open>Panic\<close>; a call that returns gives \<open>Ret\<close> of what it returns.

  \<^verbatim>\<open>float64\<close> is modelled by \<^typ>\<open>real\<close>: arithmetic is exact, and there is no NaN and no
  infinity. \<^verbatim>\<open>int\<close> is modelled by \<^typ>\<open>int\<close>; the integers of this package come from
  fields of at most four characters, far from the 64-bit bounds.
\<close>

datatype 'a go = Panic | Ret 'a

text \<open>The slice expression \<^verbatim>\<open>s[lo:hi]\<close> panics unless \<open>lo \<le> hi \<le> len(s)\<close>.\<close>

definition slice :: "string \<Rightarrow> nat \<Rightarrow> nat \<Rightarrow> string go" where
  "slice s lo hi = (if lo \<le> hi \<and> hi \<le> length s then Ret (take (hi - lo) (drop lo s)) else Panic)"

text \<open>
  The same columns without the bounds check, for the places where the code has
  already checked the length (\<open>slice_in_range\<close> below relates the two).
\<close>

definition substr :: "string \<Rightarrow> nat \<Rightarrow> nat \<Rightarrow> string" where
  "substr s lo hi = take (hi - lo) (drop lo s)"

subsection \<open>strings.TrimSpace\<close>

text \<open>
  \<^verbatim>\<open>strings.TrimSpace\<close> removes leading and trailing white space as defined by Unicode:
  the six ASCII characters tab, line feed, vertical tab, form feed, carriage return and
  space, and the code points U+0085, U+00A0, U+1680, U+2000 to U+200A, U+2028, U+2029,
  U+202F, U+205F and U+3000, which appear in a string as their UTF-8 encodings.
\<close>

definition asciiSpace :: "char \<Rightarrow> bool" where
  "asciiSpace c = ((of_char c :: nat) \<in> {9, 10, 11, 12, 13, 32})"

definition space_runes :: "string list" where
  "space_runes =
     [[CHR 0xC2, CHR 0x85], [CHR 0xC2, CHR 0xA0], [CHR 0xE1, CHR 0x9A, CHR 0x80],
      [CHR 0xE2, CHR 0x80, CHR 0x80], [CHR 0xE2, CHR 0x80, CHR 0x81],
      [CHR 0xE2, CHR 0x80, CHR 0x82], [CHR 0xE2, CHR 0x80, CHR 0x83],
      [CHR 0xE2, CHR 0x80, CHR 0x84], [CHR 0xE2, CHR 0x80, CHR 0x85],
      [CHR 0xE2, CHR 0x80, CHR 0x86], [CHR 0xE2, CHR 0x80, CHR 0x87],
      [CHR 0xE2, CHR 0x80, CHR 0x88], [CHR 0xE2, CHR 0x80, CHR 0x89],
      [CHR 0xE2, CHR 0x80, CHR 0x8A], [CHR 0xE2, CHR 0x80, CHR 0xA8],
      [CHR 0xE2, CHR 0x80, CHR 0xA9], [CHR 0xE2, CHR 0x80, CHR 0xAF],
      [CHR 0xE2, CHR 0x81, CHR 0x9F], [CHR 0xE3, CHR 0x80, CHR 0x80]]"

text \<open>
  The number of bytes of the white-space rune the string starts with, \<open>0\<close> when it
  starts with none. \<open>runes\<close> holds the multi-byte encodings (reversed when the
  string is read from its end).
\<close>

definition space_len :: "string list \<Rightarrow> string \<Rightarrow> nat" where
  "space_len runes s =
     (case s of
        [] \<Rightarrow> 0
      | c # _ \<Rightarrow>
          if asciiSpace c then 1
          else (case find (\<lambda>e. take (length e) s = e) runes of
                  Some e \<Rightarrow> length e
                | None \<Rightarrow> 0))"

function trim_left :: "string list \<Rightarrow> string \<Rightarrow> string" where
  "trim_left runes s =
     (if space_len runes s = 0 then s else trim_left runes (drop (space_len runes s) s))"
  by pat_completeness auto
termination
proof (relation "measure (\<lambda>(runes, s). length s)")
  show "wf (measure (\<lambda>(runes, s). length s))" by simp
next
  fix runes :: "string list" and s :: string
  assume "space_len runes s \<noteq> 0"
  then have "s \<noteq> []" by (auto simp: space_len_def)
  with \<open>space_len runes s \<noteq> 0\<close>
  show "((runes, drop (space_len runes s) s), (runes, s)) \<in> measure (\<lambda>(runes, s). length s)"
    by simp
qed

declare trim_left.simps [simp del]

definition TrimSpace :: "string \<Rightarrow> string" where
  "TrimSpace s = rev (trim_left (map rev space_runes) (rev (trim_left space_runes s)))"

subsection \<open>strconv.Atoi and strconv.ParseFloat\<close>

text \<open>
  \<^verbatim>\<open>strconv.Atoi\<close> accepts an optional sign followed by one or more decimal digits and
  nothing else, and reports an error (here \<open>None\<close>) otherwise or when the value does not
  fit the 64-bit \<^verbatim>\<open>int\<close>.
\<close>

definition is_digit :: "char \<Rightarrow> bool" where
  "is_digit c = (48 \<le> (of_char c :: nat) \<and> (of_char c :: nat) \<le> 57)"

definition digit_val :: "char \<Rightarrow> int" where
  "digit_val c = of_char c - 48"

definition digits_val :: "string \<Rightarrow> int" where
  "digits_val s = foldl (\<lambda>acc c. acc * 10 + digit_val c) 0 s"

definition Atoi :: "string \<Rightarrow> int option" where
  "Atoi s =
     (let neg = (s \<noteq> [] \<and> hd s = CHR ''-'');
          body = (if s \<noteq> [] \<and> (hd s = CHR ''+'' \<or> hd s = CHR ''-'') then tl s else s);
          v = (if neg then - digits_val body else digits_val body)
      in if body = [] \<or> \<not> list_all is_digit body then None
         else if - (2 ^ 63) \<le> v \<and> v < 2 ^ 63 then Some v
         else None)"

text \<open>
  \<^verbatim>\<open>strconv.ParseFloat(s, 64)\<close> is a parameter \<open>pf\<close> of every function that calls it:
  a function from strings to an optional number (\<open>None\<close> is its error). What is proved
  for every \<open>pf\<close> does not depend on the syntax the library accepts.

  \<open>ParseFloat_decimal\<close> is the library function on plain decimal numbers (an optional
  sign, digits, and an optional point followed by digits); it is the instance used
  where a concrete line is evaluated, and all such lines hold plain decimals only.
\<close>

type_synonym parse_float = "string \<Rightarrow> real option"

definition ParseFloat_decimal :: parse_float where
  "ParseFloat_decimal s =
     (let neg = (s \<noteq> [] \<and> hd s = CHR ''-'');
          body = (if s \<noteq> [] \<and> (hd s = CHR ''+'' \<or> hd s = CHR ''-'') then tl s else s);
          ip = takeWhile is_digit body;
          rest = dropWhile is_digit body;
          fp = (if rest \<noteq> [] \<and> hd rest = CHR ''.'' then tl rest else []);
          v = real_of_int (digits_val ip) + real_of_int (digits_val fp) / 10 ^ length fp
      in if (rest \<noteq> [] \<and> hd rest \<noteq> CHR ''.'') \<or> \<not> list_all is_digit fp \<or> (ip = [] \<and> fp = [])
         then None
         else Some (if neg then - v else v))"

section \<open>obs80.go: dates\<close>

definition flookup :: "int list" where
  "flookup = [0, 306, 337, 0, 31, 61, 92, 122, 153, 184, 214, 245, 275]"

text \<open>
  \<^verbatim>\<open>ParseObs80Date\<close>. The three slices are in range once \<open>len(d) \<ge> 10\<close> has been
  checked. The local \<^verbatim>\<open>df\<close> (the month field with a leading blank removed) is computed
  by the code and never used: the month is parsed from \<^verbatim>\<open>d[5:7]\<close> itself. Go's integer
  division truncates towards zero (\<open>sdiv\<close>). The array \<^verbatim>\<open>flookup\<close> has 13 entries and
  indexing it with any other month panics; the index expression is evaluated after
  the three fields have been parsed.
\<close>

definition ParseObs80Date :: "parse_float \<Rightarrow> string \<Rightarrow> (real \<times> bool) go" where
  "ParseObs80Date pf d =
     (if length d < 10 then Ret (0, False)
      else case Atoi (substr d 0 4) of
        None \<Rightarrow> Ret (0, False)
      | Some year \<Rightarrow>
         (case Atoi (substr d 5 7) of
            None \<Rightarrow> Ret (0, False)
          | Some month \<Rightarrow>
             (case pf (TrimSpace (drop 8 d)) of
                None \<Rightarrow> Ret (0, False)
              | Some day \<Rightarrow>
                 (let z = year + (month - 14) sdiv 12 in
                  if month < 0 \<or> 12 < month then Panic
                  else let m = flookup ! nat month + 365 * z + z sdiv 4 - z sdiv 100
                                 + z sdiv 400 - 678882
                       in Ret (real_of_int m + day, True)))))"

text \<open>
  The formula as the specification words it, with the mathematical floor
  (\<open>div\<close> on \<^typ>\<open>int\<close> rounds towards minus infinity), to be compared with the code.
\<close>

definition mjd_floor_formula :: "int \<Rightarrow> int \<Rightarrow> real \<Rightarrow> real" where
  "mjd_floor_formula yr mo dy =
     (let z = yr + (mo - 14) div 12
      in real_of_int (flookup ! nat mo + 365 * z + z div 4 - z div 100 + z div 400 - 678882)
           + dy)"

section \<open>The observation package\<close>

text \<open>
  The types of \<^verbatim>\<open>github.com/soniakeys/observation\<close> and \<^verbatim>\<open>coord\<close> that the package
  fills in. \<^verbatim>\<open>SiteObs\<close> and \<^verbatim>\<open>SatObs\<close> embed \<^verbatim>\<open>VMeas\<close>; \<^verbatim>\<open>VObs\<close> is the interface both
  implement. A \<^verbatim>\<open>ParallaxMap\<close> maps a site code to a pointer that may be \<^verbatim>\<open>nil\<close>: the
  outer \<open>None\<close> is a missing key, \<open>Some None\<close> a key whose value is \<^verbatim>\<open>nil\<close>.
\<close>

record VMeas =
  MJD :: real
  RA :: real
  Dec :: real
  VMag :: real
  Qual :: string

record ParallaxConst =
  Longitude :: real
  RhoCosPhi :: real
  RhoSinPhi :: real

record Cart =
  X :: real
  Y :: real
  Z :: real

record SiteObs = VMeas +
  Par :: ParallaxConst

record SatObs = VMeas +
  Sat :: string
  Offset :: Cart

datatype VObs = VSite SiteObs | VSat SatObs

record Arc =
  Desig :: string
  Obs :: "VObs list"

type_synonym ParallaxMap = "string \<Rightarrow> ParallaxConst option option"

section \<open>obs80.go: observation lines\<close>

text \<open>The error values the package creates, by the message they carry.\<close>

datatype perr =
    Requires80
  | InvalidDate string
  | InvalidRA string
  | InvalidDec string
  | InvalidMag string
  | UnknownObscode string
  | LineLength nat
  | Line2WithoutLine1
  | Sat2Designation string
  | Sat2InvalidDate string
  | Sat2DateDiffers string
  | Sat2Obscode string
  | Sat2InvalidOffset string

text \<open>
  The pattern the code uses for right ascension and for declination: two integers
  and a number, each trimmed, the first failure being the error of the field.
\<close>

definition parse_sexagesimal ::
  "parse_float \<Rightarrow> string \<Rightarrow> string \<Rightarrow> string \<Rightarrow> (int \<times> int \<times> real) option" where
  "parse_sexagesimal pf f1 f2 f3 =
     (case Atoi (TrimSpace f1) of
        None \<Rightarrow> None
      | Some h \<Rightarrow>
         (case Atoi (TrimSpace f2) of
            None \<Rightarrow> None
          | Some m \<Rightarrow>
             (case pf (TrimSpace f3) of
                None \<Rightarrow> None
              | Some s \<Rightarrow> Some (h, m, s))))"

text \<open>
  The magnitude of columns 66 to 70 with the band correction of column 71; a blank
  field leaves the zero value. The outer \<open>None\<close> is the parse error.
\<close>

definition parse_mag :: "parse_float \<Rightarrow> string \<Rightarrow> real option" where
  "parse_mag pf line80 =
     (let ts = TrimSpace (substr line80 65 70)
      in if ts = [] then Some 0
         else case pf ts of
           None \<Rightarrow> None
         | Some mag \<Rightarrow>
            (let band = line80 ! 70
             in if band = CHR ''V'' then Some mag
                else if band = CHR ''B'' then Some (mag - 0.8)
                else Some (mag + 0.4)))"

text \<open>
  \<^verbatim>\<open>ParseObs80\<close> returns \<^verbatim>\<open>(desig, o, err)\<close> with \<^verbatim>\<open>o\<close> set exactly when \<^verbatim>\<open>err\<close> is
  \<^verbatim>\<open>nil\<close>: \<open>Inl (desig, err)\<close> is a return with an error, \<open>Inr (desig, o)\<close> one with an
  observation. After the length check every column it reads is in range.
\<close>

definition ParseObs80 ::
  "parse_float \<Rightarrow> ParallaxMap \<Rightarrow> string \<Rightarrow> ((string \<times> perr) + (string \<times> VObs)) go" where
  "ParseObs80 pf ocm line80 =
     (if length line80 \<noteq> 80 then Ret (Inl ([], Requires80))
      else
        let desig = TrimSpace (substr line80 0 12);
            d = substr line80 15 32
        in case ParseObs80Date pf d of
             Panic \<Rightarrow> Panic
           | Ret (mjd, ok) \<Rightarrow>
              if \<not> ok then Ret (Inl (desig, InvalidDate d))
              else
               (case parse_sexagesimal pf (substr line80 32 34) (substr line80 35 37)
                       (substr line80 38 44) of
                  None \<Rightarrow> Ret (Inl (desig, InvalidRA (substr line80 32 44)))
                | Some (rah, ram, ras) \<Rightarrow>
                   (case parse_sexagesimal pf (substr line80 45 47) (substr line80 48 50)
                           (substr line80 51 56) of
                      None \<Rightarrow> Ret (Inl (desig, InvalidDec (substr line80 44 56)))
                    | Some (decd, decm, decs) \<Rightarrow>
                       (case parse_mag pf line80 of
                          None \<Rightarrow> Ret (Inl (desig, InvalidMag (TrimSpace (substr line80 65 70))))
                        | Some mag \<Rightarrow>
                           (let c = substr line80 77 80
                            in case ocm c of
                                 None \<Rightarrow> Ret (Inl ([], UnknownObscode c))
                               | Some par \<Rightarrow>
                                  (let ra = (real_of_int (rah * 60 + ram) * 60 + ras) * pi
                                              / (12 * 3600);
                                       dec0 = (real_of_int (decd * 60 + decm) * 60 + decs) * pi
                                              / (180 * 3600);
                                       dec = (if line80 ! 44 = CHR ''-'' then - dec0 else dec0)
                                   in case par of
                                        Some p \<Rightarrow>
                                          if line80 ! 14 = CHR ''S''
                                          then Ret (Inr (desig, VSat
                                                 \<lparr>MJD = mjd, RA = ra, Dec = dec, VMag = mag,
                                                  Qual = c, Sat = c,
                                                  Offset = \<lparr>X = 0, Y = 0, Z = 0\<rparr>\<rparr>))
                                          else Ret (Inr (desig, VSite
                                                 \<lparr>MJD = mjd, RA = ra, Dec = dec, VMag = mag,
                                                  Qual = c, Par = p\<rparr>))
                                      | None \<Rightarrow>
                                          Ret (Inr (desig, VSat
                                                 \<lparr>MJD = mjd, RA = ra, Dec = dec, VMag = mag,
                                                  Qual = c, Sat = c,
                                                  Offset = \<lparr>X = 0, Y = 0, Z = 0\<rparr>\<rparr>))))))))"

text \<open>
  \<^verbatim>\<open>parseMpcOffset\<close>: \<^verbatim>\<open>off[1:]\<close> and \<^verbatim>\<open>off[0]\<close> panic on the empty string.
\<close>

definition parseMpcOffset :: "parse_float \<Rightarrow> string \<Rightarrow> (real \<times> bool) go" where
  "parseMpcOffset pf off =
     (if off = [] then Panic
      else case pf (TrimSpace (tl off)) of
        None \<Rightarrow> Ret (0, False)
      | Some v \<Rightarrow>
         if hd off = CHR ''-'' then Ret (- v, True)
         else if hd off = CHR ''+'' \<or> hd off = CHR '' '' then Ret (v, True)
         else Ret (0, False))"

text \<open>
  \<^verbatim>\<open>ParseSat2\<close> has no length check: every slice and index is written with its
  bounds check, in the order in which the code evaluates them. It returns the
  observation \<^verbatim>\<open>s1\<close> points to after the call, and the error (\<open>None\<close> is \<^verbatim>\<open>nil\<close>).
  The constant \<^verbatim>\<open>sf\<close> is \<^verbatim>\<open>1 / 149.59787e6\<close>, commented "1 / 1 AU in km".
\<close>

definition sf_km :: real where
  "sf_km = 1 / 149597870"

definition ParseSat2 ::
  "parse_float \<Rightarrow> string \<Rightarrow> string \<Rightarrow> SatObs \<Rightarrow> (SatObs \<times> perr option) go" where
  "ParseSat2 pf line80 des1 s1 =
     (case slice line80 0 12 of
        Panic \<Rightarrow> Panic
      | Ret f \<Rightarrow>
         if TrimSpace f \<noteq> des1 then Ret (s1, Some (Sat2Designation (TrimSpace f)))
         else
          (case slice line80 15 32 of
             Panic \<Rightarrow> Panic
           | Ret d \<Rightarrow>
              (case ParseObs80Date pf d of
                 Panic \<Rightarrow> Panic
               | Ret (date2, ok) \<Rightarrow>
                  if \<not> ok then Ret (s1, Some (Sat2InvalidDate d))
                  else if date2 \<noteq> MJD s1 then Ret (s1, Some (Sat2DateDiffers d))
                  else
                   (case slice line80 77 80 of
                      Panic \<Rightarrow> Panic
                    | Ret c \<Rightarrow>
                       if c \<noteq> Sat s1 then Ret (s1, Some (Sat2Obscode c))
                       else
                        (case slice line80 34 46 of
                           Panic \<Rightarrow> Panic
                         | Ret fx \<Rightarrow>
                         (case parseMpcOffset pf fx of
                            Panic \<Rightarrow> Panic
                          | Ret (x, okx) \<Rightarrow>
                             if \<not> okx then Ret (s1, Some (Sat2InvalidOffset fx))
                             else
                        (case slice line80 46 58 of
                           Panic \<Rightarrow> Panic
                         | Ret fy \<Rightarrow>
                         (case parseMpcOffset pf fy of
                            Panic \<Rightarrow> Panic
                          | Ret (y, oky) \<Rightarrow>
                             if \<not> oky then Ret (s1, Some (Sat2InvalidOffset fy))
                             else
                        (case slice line80 58 70 of
                           Panic \<Rightarrow> Panic
                         | Ret fz \<Rightarrow>
                         (case parseMpcOffset pf fz of
                            Panic \<Rightarrow> Panic
                          | Ret (z, okz) \<Rightarrow>
                             if \<not> okz then Ret (s1, Some (Sat2InvalidOffset fz))
                             else if length line80 \<le> 32 then Panic
                             else if line80 ! 32 = CHR ''1''
                             then Ret (s1\<lparr>Offset := \<lparr>X = x * sf_km, Y = y * sf_km,
                                                      Z = z * sf_km\<rparr>\<rparr>, None)
                             else Ret (s1\<lparr>Offset := \<lparr>X = x, Y = y, Z = z\<rparr>\<rparr>, None)))))))))))"

text \<open>
  The scale factor "earth radius in m / 1 AU in m" of the package, which
  \<^verbatim>\<open>ReadObscodeDat\<close> applies to parallax constants.
\<close>

definition sf_earth_radius :: real where
  "sf_earth_radius = 6378140 / 149597870000"

section \<open>The arc splitter\<close>

text \<open>
  The error values the function returned by \<^verbatim>\<open>ArcSplitter\<close> can give: \<^verbatim>\<open>io.EOF\<close>, an
  error wrapped in \<^verbatim>\<open>ArcError\<close>, an error of \<^verbatim>\<open>ParseSat2\<close> passed on as it is (the code
  does not wrap it), and the error of the scanner.
\<close>

datatype error = EOF | ArcError perr | OtherError perr | ScanError string

text \<open>
  The variables the closure captures. The \<^verbatim>\<open>bufio.Scanner\<close> over the input is the list
  of the lines it has yet to deliver and the error \<^verbatim>\<open>s.Err()\<close> reports once they are
  used up (\<open>None\<close> for a clean end of input); after \<^verbatim>\<open>Scan\<close> has returned \<^verbatim>\<open>false\<close> it
  keeps returning \<^verbatim>\<open>false\<close> and \<^verbatim>\<open>s.Text()\<close> is empty. The other fields are the
  variables \<^verbatim>\<open>a\<close>, \<^verbatim>\<open>desig\<close>, \<^verbatim>\<open>o\<close> and \<^verbatim>\<open>err\<close>.

  The closure returns the pointer \<^verbatim>\<open>&a\<close>; the model returns the value of \<^verbatim>\<open>a\<close> at the
  return. Inside the loop a non-nil \<^verbatim>\<open>o\<close> points to the observation last appended to
  \<^verbatim>\<open>a.Obs\<close>, so what \<^verbatim>\<open>ParseSat2\<close> writes through it is written to the last element.
\<close>

record splitter =
  sc_lines :: "string list"
  sc_Err :: "string option"
  var_a :: Arc
  var_desig :: string
  var_o :: "VObs option"
  var_err :: "error option"

definition ArcSplitter :: "string list \<Rightarrow> string option \<Rightarrow> splitter" where
  "ArcSplitter rObs rErr =
     \<lparr>sc_lines = rObs, sc_Err = rErr, var_a = \<lparr>Desig = [], Obs = []\<rparr>,
      var_desig = [], var_o = None, var_err = None\<rparr>"

text \<open>The statements before the loop: the arc is emptied and a carried observation starts it.\<close>

definition begin_arc :: "splitter \<Rightarrow> splitter" where
  "begin_arc st =
     (case var_o st of
        None \<Rightarrow> st\<lparr>var_a := (var_a st)\<lparr>Obs := []\<rparr>\<rparr>
      | Some ob \<Rightarrow> st\<lparr>var_a := \<lparr>Desig = var_desig st, Obs = [ob]\<rparr>\<rparr>)"

text \<open>
  One pass through the loop body with a line the scanner delivered: the loop goes
  on, or is left by \<^verbatim>\<open>break arc\<close> with the error stored in \<^verbatim>\<open>err\<close>, or the function
  returns, or a callee panics.
\<close>

datatype line_result =
    Continue splitter
  | Break error splitter
  | Return "Arc option \<times> error option" splitter
  | LinePanic

definition arc_line :: "parse_float \<Rightarrow> ParallaxMap \<Rightarrow> string \<Rightarrow> splitter \<Rightarrow> line_result" where
  "arc_line pf pMap line st =
     (if length line \<noteq> 80 then Break (ArcError (LineLength (length line))) st
      else if line ! 14 = CHR ''s'' then
        (case var_o st of
           Some (VSat s1) \<Rightarrow>
             (case ParseSat2 pf line (var_desig st) s1 of
                Panic \<Rightarrow> LinePanic
              | Ret (s1', Some e) \<Rightarrow> Break (OtherError e) st
              | Ret (s1', None) \<Rightarrow>
                  Continue (st\<lparr>var_o := Some (VSat s1'),
                               var_a := (var_a st)\<lparr>Obs :=
                                 (Obs (var_a st))[length (Obs (var_a st)) - 1 := VSat s1']\<rparr>\<rparr>))
         | _ \<Rightarrow> Break (ArcError Line2WithoutLine1) st)
      else
        (case ParseObs80 pf pMap line of
           Panic \<Rightarrow> LinePanic
         | Ret (Inl (dsg, e)) \<Rightarrow> Break (ArcError e) (st\<lparr>var_desig := dsg, var_o := None\<rparr>)
         | Ret (Inr (dsg, ob)) \<Rightarrow>
             if Obs (var_a st) = []
             then Continue (st\<lparr>var_desig := dsg, var_o := Some ob,
                                var_a := \<lparr>Desig = dsg, Obs = [ob]\<rparr>\<rparr>)
             else if dsg = Desig (var_a st)
             then Continue (st\<lparr>var_desig := dsg, var_o := Some ob,
                                var_a := (var_a st)\<lparr>Obs := Obs (var_a st) @ [ob]\<rparr>\<rparr>)
             else Return (Some (var_a st), None) (st\<lparr>var_desig := dsg, var_o := Some ob\<rparr>)))"

text \<open>After \<^verbatim>\<open>break arc\<close>: "there was a parse error".\<close>

definition arc_break :: "error \<Rightarrow> splitter \<Rightarrow> (Arc option \<times> error option) \<times> splitter" where
  "arc_break e st =
     (if Obs (var_a st) \<noteq> []
      then ((Some (var_a st), None), st\<lparr>var_o := None, var_err := Some e\<rparr>)
      else ((Some (var_a st), Some e), st\<lparr>var_o := None, var_err := None\<rparr>))"

text \<open>\<^verbatim>\<open>Scan\<close> returned \<^verbatim>\<open>false\<close>: the scanner's error, or the end of the input.\<close>

definition scan_end :: "splitter \<Rightarrow> (Arc option \<times> error option) \<times> splitter" where
  "scan_end st =
     (case sc_Err st of
        Some e \<Rightarrow> ((None, Some (ScanError e)), st\<lparr>var_err := Some (ScanError e)\<rparr>)
      | None \<Rightarrow>
          if Obs (var_a st) = [] then ((None, Some EOF), st\<lparr>var_err := None\<rparr>)
          else ((Some (var_a st), None), st\<lparr>var_err := Some EOF, var_o := None\<rparr>))"

text \<open>The loop, over the lines the scanner still holds; what is left of them is stored at the return.\<close>

fun arc_loop ::
  "parse_float \<Rightarrow> ParallaxMap \<Rightarrow> string list \<Rightarrow> splitter
     \<Rightarrow> ((Arc option \<times> error option) \<times> splitter) go" where
  "arc_loop pf pMap [] st = Ret (scan_end (st\<lparr>sc_lines := []\<rparr>))"
| "arc_loop pf pMap (line # rest) st =
     (case arc_line pf pMap line st of
        Continue st' \<Rightarrow> arc_loop pf pMap rest st'
      | Break e st' \<Rightarrow> Ret (arc_break e (st'\<lparr>sc_lines := rest\<rparr>))
      | Return r st' \<Rightarrow> Ret (r, st'\<lparr>sc_lines := rest\<rparr>)
      | LinePanic \<Rightarrow> Panic)"

text \<open>One call of the function \<^verbatim>\<open>ArcSplitter\<close> returned.\<close>

definition next_arc ::
  "parse_float \<Rightarrow> ParallaxMap \<Rightarrow> splitter \<Rightarrow> ((Arc option \<times> error option) \<times> splitter) go" where
  "next_arc pf pMap st =
     (case var_err st of
        Some e \<Rightarrow> Ret ((None, Some e), st\<lparr>var_err := None\<rparr>)
      | None \<Rightarrow> arc_loop pf pMap (sc_lines st) (begin_arc st))"

text \<open>\<open>n\<close> calls in a row, with the results in order.\<close>

fun calls ::
  "parse_float \<Rightarrow> ParallaxMap \<Rightarrow> nat \<Rightarrow> splitter
     \<Rightarrow> ((Arc option \<times> error option) list \<times> splitter) go" where
  "calls pf pMap 0 st = Ret ([], st)"
| "calls pf pMap (Suc n) st =
     (case next_arc pf pMap st of
        Panic \<Rightarrow> Panic
      | Ret (r, st') \<Rightarrow>
         (case calls pf pMap n st' of
            Panic \<Rightarrow> Panic
          | Ret (rs, st'') \<Rightarrow> Ret (r # rs, st'')))"

subsection \<open>Conditions on the state of the splitter\<close>

text \<open>
  \<open>exhausted\<close>: the input is used up without an error and nothing is carried.
  \<open>loop_inv\<close> holds inside the loop: \<^verbatim>\<open>err\<close> is \<^verbatim>\<open>nil\<close> and a non-nil \<^verbatim>\<open>o\<close> is in
  the arc. \<open>eof_inv\<close> holds between calls: a carried \<^verbatim>\<open>io.EOF\<close> was stored at the end
  of the input.
\<close>

definition exhausted :: "splitter \<Rightarrow> bool" where
  "exhausted st =
     (sc_lines st = [] \<and> sc_Err st = None \<and> var_o st = None \<and> var_err st = None)"

definition loop_inv :: "splitter \<Rightarrow> bool" where
  "loop_inv st = (var_err st = None \<and> (var_o st = None \<or> Obs (var_a st) \<noteq> []))"

definition eof_inv :: "splitter \<Rightarrow> bool" where
  "eof_inv st =
     (var_err st \<noteq> Some EOF \<or> (sc_lines st = [] \<and> sc_Err st = None \<and> var_o st = None))"

subsection \<open>Lines that the loop takes in\<close>

text \<open>
  \<open>absorb\<close> is the loop run over lines that all let it go on (\<open>None\<close> when one of
  them does not). \<open>decoded\<close> is what an observation line gives: a line of 80
  characters that is not a continuation line and for which \<^verbatim>\<open>ParseObs80\<close> returns an
  observation, with its designation.
\<close>

fun absorb :: "parse_float \<Rightarrow> ParallaxMap \<Rightarrow> string list \<Rightarrow> splitter \<Rightarrow> splitter option" where
  "absorb pf pMap [] st = Some st"
| "absorb pf pMap (line # rest) st =
     (case arc_line pf pMap line st of
        Continue st' \<Rightarrow> absorb pf pMap rest st'
      | _ \<Rightarrow> None)"

definition decoded :: "parse_float \<Rightarrow> ParallaxMap \<Rightarrow> string \<Rightarrow> (string \<times> VObs) option" where
  "decoded pf pMap line =
     (if length line = 80 \<and> line ! 14 \<noteq> CHR ''s''
      then (case ParseObs80 pf pMap line of
              Ret (Inr (d, ob)) \<Rightarrow> Some (d, ob)
            | _ \<Rightarrow> None)
      else None)"

subsection \<open>What an arc is made of\<close>



definition arc_inv :: "splitter \<Rightarrow> bool" where
  "arc_inv st =
     (var_err st = None
      \<and> (case var_o st of
           None \<Rightarrow> Obs (var_a st) = []
         | Some ob \<Rightarrow> Obs (var_a st) \<noteq> [] \<and> last (Obs (var_a st)) = ob
                       \<and> var_desig st = Desig (var_a st)))"



subsection \<open>Runs of lines and the line that ends them\<close>


definition failure :: "parse_float \<Rightarrow> ParallaxMap \<Rightarrow> Arc \<Rightarrow> string \<Rightarrow> error option" where
  "failure pf pMap arc l =
     (if length l \<noteq> 80 then Some (ArcError (LineLength (length l)))
      else if l ! 14 = CHR ''s'' then
        (case last (Obs arc) of
           VSite s \<Rightarrow> Some (ArcError Line2WithoutLine1)
         | VSat s1 \<Rightarrow>
            (case ParseSat2 pf l (Desig arc) s1 of
               Ret (s1', Some e) \<Rightarrow> Some (OtherError e)
             | _ \<Rightarrow> None))
      else
        (case ParseObs80 pf pMap l of
           Ret (Inl (dsg, e)) \<Rightarrow> Some (ArcError e)
         | _ \<Rightarrow> None))"


section \<open>tracklet.go\<close>

text \<open>
  \<^verbatim>\<open>td\<close> and \<^verbatim>\<open>tk\<close>; the field \<^verbatim>\<open>index\<close> of \<^verbatim>\<open>tk\<close> is \<open>members\<close> here. The local names
  \<^verbatim>\<open>set\<close> and \<^verbatim>\<open>tl\<close> of the code are \<open>tset\<close> and \<open>tlist\<close>.
\<close>

record td =
  mjd :: real
  index :: nat

record tk =
  members :: "nat list"
  mean :: real

definition appendTl :: "td list \<Rightarrow> tk list \<Rightarrow> tk list" where
  "appendTl tset tlist =
     tlist @ [\<lparr>members = map index tset,
               mean = sum_list (map mjd tset) / real (length tset)\<rparr>]"

text \<open>
  The scan for the longest gap, from position \<open>s\<close> on: \<open>nxt\<close> is the time at
  position \<open>s - 1\<close>, and a later gap replaces the longest one only when it is
  strictly longer.
\<close>

fun longest_gap :: "td list \<Rightarrow> nat \<Rightarrow> real \<Rightarrow> real \<Rightarrow> nat \<Rightarrow> nat" where
  "longest_gap [] s nxt longest split = split"
| "longest_gap (x # xs) s nxt longest split =
     (if mjd x - nxt > longest then longest_gap xs (Suc s) (mjd x) (mjd x - nxt) s
      else longest_gap xs (Suc s) (mjd x) longest split)"

definition split_at :: "td list \<Rightarrow> nat" where
  "split_at tset =
     longest_gap (drop 2 tset) 2 (mjd (tset ! 1)) (mjd (tset ! 1) - mjd (tset ! 0)) 1"

text \<open>
  \<^verbatim>\<open>reduce\<close> appends to the list \<^verbatim>\<open>tl\<close> of the enclosing function: the list is passed
  in and returned. Indexing an empty \<^verbatim>\<open>set\<close>, and \<^verbatim>\<open>set[1]\<close> of a one-element one,
  panic.
\<close>

function reduce :: "td list \<Rightarrow> tk list \<Rightarrow> tk list go" where
  "reduce tset tlist =
     (if tset = [] then Panic
      else
        let d = mjd (last tset) - mjd (hd tset) in
        if d < 0.042 then Ret (appendTl tset tlist)
        else if length tset \<le> 5 \<and> d < 0.125 then Ret (appendTl tset tlist)
        else if length tset = 2 then
          (if d < 0.5 then Ret (appendTl tset tlist)
           else Ret (appendTl (drop 1 tset) (appendTl (take 1 tset) tlist)))
        else if length tset < 2 then Panic
        else
          let split = split_at tset;
              lf = take split tset;
              rt = drop split tset
          in if length lf \<ge> 3 \<and> length rt \<ge> 3 then
               (case reduce lf tlist of
                  Panic \<Rightarrow> Panic
                | Ret tlist1 \<Rightarrow> reduce rt tlist1)
             else if length lf = 2 \<and> length rt \<ge> 2 \<and> mjd (lf ! 1) - mjd (lf ! 0) < 0.5 then
               reduce rt (appendTl lf tlist)
             else if length rt = 2 \<and> length lf \<ge> 2 \<and> mjd (rt ! 1) - mjd (rt ! 0) < 0.5 then
               (case reduce lf tlist of
                  Panic \<Rightarrow> Panic
                | Ret tlist1 \<Rightarrow> Ret (appendTl rt tlist1))
             else if length tset = 3 \<and> d < 0.5 then Ret (appendTl tset tlist)
             else if d < 0.25 then Ret (appendTl tset tlist)
             else
               (case reduce lf tlist of
                  Panic \<Rightarrow> Panic
                | Ret tlist1 \<Rightarrow> reduce rt tlist1))"
  by pat_completeness auto
termination
proof -
  have bounds: "split < s \<Longrightarrow> 0 < split \<Longrightarrow>
      0 < longest_gap xs s nxt longest split \<and> longest_gap xs s nxt longest split < s + length xs"
    for xs s nxt longest split
  proof (induction xs arbitrary: s nxt longest split)
    case Nil
    then show ?case by simp
  next
    case (Cons x xs)
    have a: "0 < longest_gap xs (Suc s) (mjd x) (mjd x - nxt) s
           \<and> longest_gap xs (Suc s) (mjd x) (mjd x - nxt) s < Suc s + length xs"
      using Cons.prems by (intro Cons.IH) auto
    have b: "0 < longest_gap xs (Suc s) (mjd x) longest split
           \<and> longest_gap xs (Suc s) (mjd x) longest split < Suc s + length xs"
      using Cons.prems by (intro Cons.IH) auto
    show ?case using a b by simp
  qed
  have sp: "0 < split_at tset \<and> split_at tset < length tset" if "2 \<le> length tset" for tset
  proof -
    have "0 < split_at tset \<and> split_at tset < 2 + length (drop 2 tset)"
      unfolding split_at_def by (rule bounds) simp_all
    moreover have "2 + length (drop 2 tset) = length tset"
      using that by simp
    ultimately show ?thesis by metis
  qed
  show ?thesis
  proof (relation "measure (\<lambda>(tset, tlist). length tset)")
    show "wf (measure (\<lambda>(tset, tlist). length tset))" by simp
  qed (use sp in \<open>auto simp: not_less; fastforce\<close>)+
qed

declare reduce.simps [simp del]

text \<open>
  What Go leaves open and the function depends on: the order in which \<^verbatim>\<open>range\<close> visits
  the keys of a map, and the order in which \<^verbatim>\<open>sort.Sort\<close>, which is not stable, leaves
  elements that compare equal. They are parameters, and \<open>admissible\<close> is what the
  language promises of them: \<^verbatim>\<open>range\<close> visits every key once, \<^verbatim>\<open>sort.Sort\<close> permutes its
  argument into an order in which no element is less than an earlier one.
\<close>

record unspecified =
  range_order :: "string list \<Rightarrow> string list"
  sort_dated :: "td list \<Rightarrow> td list"
  sort_tkList :: "tk list \<Rightarrow> tk list"

definition admissible :: "unspecified \<Rightarrow> bool" where
  "admissible u =
     ((\<forall>ks. mset (range_order u ks) = mset ks)
      \<and> (\<forall>ds. mset (sort_dated u ds) = mset ds \<and> sorted (map mjd (sort_dated u ds)))
      \<and> (\<forall>tks. mset (sort_tkList u tks) = mset tks \<and> sorted (map mean (sort_tkList u tks))))"

text \<open>
  The input \<^verbatim>\<open>ts\<close> is the list of what \<^verbatim>\<open>MJD()\<close> and \<^verbatim>\<open>Observer()\<close> return for each
  element. The first loop fills the map \<^verbatim>\<open>m\<close>; a key that is absent maps to the
  empty slice.
\<close>

fun build_m :: "(real \<times> string) list \<Rightarrow> nat \<Rightarrow> (string \<Rightarrow> td list) \<Rightarrow> (string \<Rightarrow> td list)" where
  "build_m [] i m = m"
| "build_m ((d, ob) # ts) i m = build_m ts (Suc i) (m(ob := m ob @ [\<lparr>mjd = d, index = i\<rparr>]))"

text \<open>The loop \<^verbatim>\<open>for _, t1 := range m\<close>, over the keys in the order of the visit.\<close>

fun range_m :: "unspecified \<Rightarrow> (string \<Rightarrow> td list) \<Rightarrow> string list \<Rightarrow> tk list \<Rightarrow> tk list go" where
  "range_m u m [] tlist = Ret tlist"
| "range_m u m (k # ks) tlist =
     (case reduce (sort_dated u (m k)) tlist of
        Panic \<Rightarrow> Panic
      | Ret tlist1 \<Rightarrow> range_m u m ks tlist1)"

text \<open>
  The list \<^verbatim>\<open>tl\<close> when the loops are done, before it is sorted: the keys of \<^verbatim>\<open>m\<close> are
  the observers of the input, visited in an unspecified order.
\<close>

definition tracklets :: "unspecified \<Rightarrow> (real \<times> string) list \<Rightarrow> tk list go" where
  "tracklets u ts = range_m u (build_m ts 0 (\<lambda>k. [])) (range_order u (remdups (map snd ts))) []"

definition FindTrackletsIndex :: "unspecified \<Rightarrow> (real \<times> string) list \<Rightarrow> nat list list go" where
  "FindTrackletsIndex u ts =
     (case tracklets u ts of
        Panic \<Rightarrow> Panic
      | Ret tlist \<Rightarrow> Ret (map members (sort_tkList u tlist)))"

text \<open>
  Two admissible choices: both sort stably by insertion; one visits the observers in
  the order of their first observation, the other in the reverse order.
\<close>

definition go_fwd :: unspecified where
  "go_fwd = \<lparr>range_order = (\<lambda>ks. ks), sort_dated = sort_key mjd, sort_tkList = sort_key mean\<rparr>"

definition go_rev :: unspecified where
  "go_rev = \<lparr>range_order = rev, sort_dated = sort_key mjd, sort_tkList = sort_key mean\<rparr>"


subsection \<open>What \<open>reduce\<close> decides\<close>

text \<open>
  \<open>decide\<close> is the choice \<^verbatim>\<open>reduce\<close> makes for a list, read off its sequence of
  tests: it panics, appends the whole list as a tracklet, appends two tracklets of
  one member, recurses into both halves at the longest gap, or appends one half and
  recurses into the other (\<open>reduce_decide\<close> below). \<open>tracks\<close> is the list of
  tracklets \<^verbatim>\<open>reduce\<close> appends. \<open>imap\<close> and \<open>mmap\<close> rename the indices of an
  observation and of a tracklet. \<open>group_of\<close> is the slice the first loop leaves in
  the map under an observer (\<open>build_m_group_of\<close> below).
\<close>

definition imap :: "(nat \<Rightarrow> nat) \<Rightarrow> td \<Rightarrow> td" where
  "imap f x = x\<lparr>index := f (index x)\<rparr>"

definition mmap :: "(nat \<Rightarrow> nat) \<Rightarrow> tk \<Rightarrow> tk" where
  "mmap f t = t\<lparr>members := map f (members t)\<rparr>"

definition tracks :: "td list \<Rightarrow> tk list" where
  "tracks tset = (case reduce tset [] of Ret new \<Rightarrow> new | Panic \<Rightarrow> [])"

datatype decision = Fail | Whole | Singles | Recurse nat | AcceptLeft nat | AcceptRight nat

definition decide :: "td list \<Rightarrow> decision" where
  "decide tset =
     (if tset = [] then Fail
      else
        let d = mjd (last tset) - mjd (hd tset) in
        if d < 0.042 then Whole
        else if length tset \<le> 5 \<and> d < 0.125 then Whole
        else if length tset = 2 then (if d < 0.5 then Whole else Singles)
        else if length tset < 2 then Fail
        else
          let split = split_at tset;
              lf = take split tset;
              rt = drop split tset
          in if length lf \<ge> 3 \<and> length rt \<ge> 3 then Recurse split
             else if length lf = 2 \<and> length rt \<ge> 2 \<and> mjd (lf ! 1) - mjd (lf ! 0) < 0.5 then
               AcceptLeft split
             else if length rt = 2 \<and> length lf \<ge> 2 \<and> mjd (rt ! 1) - mjd (rt ! 0) < 0.5 then
               AcceptRight split
             else if length tset = 3 \<and> d < 0.5 then Whole
             else if d < 0.25 then Whole
             else Recurse split)"

definition group_of :: "(real \<times> string) list \<Rightarrow> string \<Rightarrow> td list" where
  "group_of ts k =
     map (\<lambda>i. \<lparr>mjd = fst (ts ! i), index = i\<rparr>) (filter (\<lambda>i. snd (ts ! i) = k) [0..<length ts])"

section \<open>Test data of the package\<close>

text \<open>
  The two lines of the space-based observation of \<^verbatim>\<open>obs80_test.go\<close>, a parallax map
  in which the site 250 is present with the value \<^verbatim>\<open>nil\<close>, and the observation that
  \<^verbatim>\<open>ParseObs80\<close> returns for the first line (\<open>tcSatLine1_parsed\<close> below).
\<close>

definition tcSatLine1 :: string where
  "tcSatLine1 = ''03620         S1996 08 30.51477 21 07 31.918-05 22 00.82                27764250''"

definition tcSatLine2 :: string where
  "tcSatLine2 = ''03620         s1996 08 30.51477 1 -  344.3553 - 6919.1239 +  872.2948   27764250''"

definition tc_pMap :: ParallaxMap where
  "tc_pMap = (\<lambda>c. None)(''250'' := Some None)"

text \<open>The line \<^verbatim>\<open>bad\<close> of \<^verbatim>\<open>arc_test.go\<close>.\<close>

definition bad_line :: string where
  "bad_line = ''REALLY BRIGHT IN THE EAST JUST AFTER SUNSET''"

definition tc_s1 :: SatObs where
  "tc_s1 = \<lparr>MJD = 50325.51477, RA = 38025959 * pi / 21600000,
            Dec = - (966041 * pi / 32400000), VMag = 0, Qual = ''250'', Sat = ''250'',
            Offset = \<lparr>X = 0, Y = 0, Z = 0\<rparr>\<rparr>"




definition bad_month_line :: string where
  "bad_month_line = ''03620         S1996 13 30.51477 21 07 31.918-05 22 00.82                27764250''"

section \<open>Facts about the library functions\<close>

lemma slice_in_range:
  "lo \<le> hi \<Longrightarrow> hi \<le> length s \<Longrightarrow> slice s lo hi = Ret (substr s lo hi)"
  by (simp add: slice_def substr_def)

lemma slice_out_of_range: "length s < hi \<Longrightarrow> slice s lo hi = Panic"
  by (simp add: slice_def)

lemmas strconv_eval =
  Atoi_def ParseFloat_decimal_def digits_val_def digit_val_def is_digit_def

lemmas TrimSpace_eval =
  TrimSpace_def trim_left.simps space_len_def asciiSpace_def space_runes_def

lemmas obs80_eval =
  ParseObs80_def ParseObs80Date_def parse_sexagesimal_def parse_mag_def flookup_def substr_def
  signed_divide_int_def Let_def

lemmas sat2_eval =
  ParseSat2_def slice_def parseMpcOffset_def ParseObs80Date_def flookup_def substr_def
  signed_divide_int_def

lemma tcSatLine1_parsed:
  "ParseObs80 ParseFloat_decimal tc_pMap tcSatLine1 = Ret (Inr (''03620'', VSat tc_s1))"
  by (simp add: tcSatLine1_def tc_pMap_def tc_s1_def obs80_eval TrimSpace_eval strconv_eval)

section \<open>Dates: the formula of the decoder\<close>

text \<open>
  C4, as the code has it. For a date field of at least 10 characters whose year,
  month and day parse to \<open>yr\<close>, \<open>mo\<close> and \<open>dy\<close>, with \<open>mo\<close> an index of the
  13-entry table, the decoder returns
  \<open>table[mo] + 365*z + z/4 - z/100 + z/400 - 678882 + dy\<close> with
  \<open>z = yr + (mo - 14)/12\<close>,
  where every division is Go's integer division, which truncates towards zero:
  \<open>(mo - 14)/12\<close> is \<open>-1\<close> for January and February and \<open>0\<close> from March on.
\<close>

theorem ParseObs80Date_truncating_formula:
  assumes "10 \<le> length d"
    and "Atoi (substr d 0 4) = Some yr"
    and "Atoi (substr d 5 7) = Some mo"
    and "pf (TrimSpace (drop 8 d)) = Some dy"
    and "0 \<le> mo" and "mo \<le> 12"
  shows "ParseObs80Date pf d =
           (let z = yr + (mo - 14) sdiv 12
            in Ret (real_of_int (flookup ! nat mo + 365 * z + z sdiv 4 - z sdiv 100
                                   + z sdiv 400 - 678882) + dy, True))
         \<and> (mo - 14) sdiv 12 = (if mo \<le> 2 then - 1 else 0)"
proof -
  have "(mo - 14) sdiv 12 = (if mo \<le> 2 then - 1 else 0)"
    using assms(5,6) by (auto simp: signed_divide_int_def sgn_if)
  moreover have "ParseObs80Date pf d =
           (let z = yr + (mo - 14) sdiv 12
            in Ret (real_of_int (flookup ! nat mo + 365 * z + z sdiv 4 - z sdiv 100
                                   + z sdiv 400 - 678882) + dy, True))"
    using assms by (simp add: ParseObs80Date_def Let_def)
  ultimately show ?thesis by simp
qed

theorem ParseObs80Date_truncating_formula_witness:
  "ParseObs80Date ParseFloat_decimal ''2014 09 04.8'' =
     (let z = 2014 + (9 - 14) sdiv 12
      in Ret (real_of_int (flookup ! nat 9 + 365 * z + z sdiv 4 - z sdiv 100
                             + z sdiv 400 - 678882) + 48 / 10, True))
   \<and> ((9::int) - 14) sdiv 12 = (if (9::int) \<le> 2 then - 1 else 0)"
proof -
  have l: "10 \<le> length ''2014 09 04.8''" by simp
  have y: "Atoi (substr ''2014 09 04.8'' 0 4) = Some 2014"
    by (simp add: substr_def strconv_eval)
  have m: "Atoi (substr ''2014 09 04.8'' 5 7) = Some 9"
    by (simp add: substr_def strconv_eval)
  have dd: "ParseFloat_decimal (TrimSpace (drop 8 ''2014 09 04.8'')) = Some (48 / 10)"
    by (simp add: TrimSpace_eval strconv_eval)
  show ?thesis
    using ParseObs80Date_truncating_formula
      [of "''2014 09 04.8''" 2014 9 ParseFloat_decimal "48 / 10"] l y m dd
    by simp
qed

text \<open>
  C4 as the specification words it, with the mathematical floor, fails: for
  4.8 September 2014 the floor gives \<open>z = 2013\<close> and day number 56539.8, and the
  decoder returns 56904.8.
\<close>

theorem ParseObs80Date_floor_formula_counterexample:
  "Atoi (substr ''2014 09 04.8'' 0 4) = Some 2014
   \<and> Atoi (substr ''2014 09 04.8'' 5 7) = Some 9
   \<and> ParseFloat_decimal (TrimSpace (drop 8 ''2014 09 04.8'')) = Some 4.8
   \<and> mjd_floor_formula 2014 9 4.8 = 56539.8
   \<and> ParseObs80Date ParseFloat_decimal ''2014 09 04.8'' = Ret (56904.8, True)
   \<and> ParseObs80Date ParseFloat_decimal ''2014 09 04.8''
        \<noteq> Ret (mjd_floor_formula 2014 9 4.8, True)"
  by (simp add: ParseObs80Date_def mjd_floor_formula_def flookup_def substr_def
      TrimSpace_eval strconv_eval signed_divide_int_def)

text \<open>
  C5. \<^verbatim>\<open>ParseObs80Date("2014 09 04.8")\<close> returns 56904.8 and \<^verbatim>\<open>true\<close>, whenever the
  library reads the day field \<^verbatim>\<open>04.8\<close> as 4.8.
\<close>

theorem ParseObs80Date_example:
  "pf ''04.8'' = Some 4.8 \<Longrightarrow> ParseObs80Date pf ''2014 09 04.8'' = Ret (56904.8, True)"
  by (simp add: ParseObs80Date_def flookup_def substr_def TrimSpace_eval
      Atoi_def digits_val_def digit_val_def is_digit_def signed_divide_int_def)

theorem ParseObs80Date_example_witness:
  "ParseFloat_decimal ''04.8'' = Some 4.8
   \<and> ParseObs80Date ParseFloat_decimal ''2014 09 04.8'' = Ret (56904.8, True)"
proof -
  have h: "ParseFloat_decimal ''04.8'' = Some 4.8"
    by (simp add: strconv_eval)
  show ?thesis using h ParseObs80Date_example [of ParseFloat_decimal] by simp
qed

section \<open>The line decoder and panics\<close>

lemma ParseObs80Date_Panic_iff:
  "ParseObs80Date pf d = Panic \<longleftrightarrow>
     10 \<le> length d
     \<and> (\<exists>yr mo dy. Atoi (substr d 0 4) = Some yr \<and> Atoi (substr d 5 7) = Some mo
          \<and> pf (TrimSpace (drop 8 d)) = Some dy \<and> (mo < 0 \<or> 12 < mo))"
  by (auto simp: ParseObs80Date_def Let_def split: option.splits)

lemma ParseObs80_Panic_iff:
  "ParseObs80 pf ocm line80 = Panic \<longleftrightarrow>
     length line80 = 80 \<and> ParseObs80Date pf (substr line80 15 32) = Panic"
  by (auto simp: ParseObs80_def Let_def split: go.splits option.splits prod.splits if_splits)

text \<open>
  C6. An 80-character line whose month field is \<^verbatim>\<open>13\<close> makes \<^verbatim>\<open>ParseObs80\<close> panic,
  whatever the parallax map: \<^verbatim>\<open>ParseObs80Date\<close> indexes the 13-entry table
  \<^verbatim>\<open>flookup\<close> with the month without a range check. (By the two lemmas above this is
  the only way in which \<^verbatim>\<open>ParseObs80\<close> panics: a date of at least 10 characters whose
  three fields parse and whose month is negative or above 12.)
\<close>

theorem ParseObs80_month_panics:
  "length ''     K11Q14F  C2014 13 03.40285 02 53 00.70 +10 38 30.3          19.2 VqER031703'' = 80
   \<and> ParseObs80 ParseFloat_decimal ocm
        ''     K11Q14F  C2014 13 03.40285 02 53 00.70 +10 38 30.3          19.2 VqER031703''
       = Panic"
  by (simp add: obs80_eval TrimSpace_eval strconv_eval)

section \<open>Satellite continuation lines\<close>

text \<open>
  C7, as the code has it. When the identity checks pass and the three offset fields
  (columns 35-46, 47-58, 59-70) parse, the offset stored is the three parsed numbers
  as they are, unless column 33 is \<^verbatim>\<open>1\<close>, in which case each is multiplied by the
  constant \<^verbatim>\<open>1 / 149.59787e6\<close> (one over the astronomical unit in kilometres).
\<close>

theorem ParseSat2_offset_scale:
  assumes "80 \<le> length line80"
    and "TrimSpace (substr line80 0 12) = des1"
    and "ParseObs80Date pf (substr line80 15 32) = Ret (MJD s1, True)"
    and "substr line80 77 80 = Sat s1"
    and "parseMpcOffset pf (substr line80 34 46) = Ret (x, True)"
    and "parseMpcOffset pf (substr line80 46 58) = Ret (y, True)"
    and "parseMpcOffset pf (substr line80 58 70) = Ret (z, True)"
  shows "ParseSat2 pf line80 des1 s1 =
           (let k = (if line80 ! 32 = CHR ''1'' then sf_km else 1)
            in Ret (s1\<lparr>Offset := \<lparr>X = x * k, Y = y * k, Z = z * k\<rparr>\<rparr>, None))
         \<and> sf_km = 1 / 149597870"
  using assms by (simp add: ParseSat2_def slice_in_range sf_km_def)

theorem ParseSat2_offset_scale_witness:
  "ParseSat2 ParseFloat_decimal tcSatLine2 ''03620'' tc_s1 =
     Ret (tc_s1\<lparr>Offset := \<lparr>X = - 344.3553 * sf_km, Y = - 6919.1239 * sf_km,
                            Z = 872.2948 * sf_km\<rparr>\<rparr>, None)"
proof -
  have 1: "80 \<le> length tcSatLine2" by (simp add: tcSatLine2_def)
  have 2: "TrimSpace (substr tcSatLine2 0 12) = ''03620''"
    by (simp add: tcSatLine2_def substr_def TrimSpace_eval)
  have 3: "ParseObs80Date ParseFloat_decimal (substr tcSatLine2 15 32) = Ret (MJD tc_s1, True)"
    by (simp add: tcSatLine2_def tc_s1_def ParseObs80Date_def flookup_def substr_def
        signed_divide_int_def TrimSpace_eval strconv_eval)
  have 4: "substr tcSatLine2 77 80 = Sat tc_s1"
    by (simp add: tcSatLine2_def tc_s1_def substr_def)
  have 5: "parseMpcOffset ParseFloat_decimal (substr tcSatLine2 34 46) = Ret (- 344.3553, True)"
    by (simp add: tcSatLine2_def parseMpcOffset_def substr_def TrimSpace_eval strconv_eval)
  have 6: "parseMpcOffset ParseFloat_decimal (substr tcSatLine2 46 58) = Ret (- 6919.1239, True)"
    by (simp add: tcSatLine2_def parseMpcOffset_def substr_def TrimSpace_eval strconv_eval)
  have 7: "parseMpcOffset ParseFloat_decimal (substr tcSatLine2 58 70) = Ret (872.2948, True)"
    by (simp add: tcSatLine2_def parseMpcOffset_def substr_def TrimSpace_eval strconv_eval)
  have 8: "tcSatLine2 ! 32 = CHR ''1''" by (simp add: tcSatLine2_def)
  show ?thesis
    using ParseSat2_offset_scale [of tcSatLine2 "''03620''" ParseFloat_decimal tc_s1
        "- 344.3553" "- 6919.1239" "872.2948"] 1 2 3 4 5 6 7 8
    by simp
qed

text \<open>
  C7 as the specification words it fails: on the continuation line of the package's
  test, whose column 33 is \<^verbatim>\<open>1\<close>, the first offset stored is \<open>-344.3553 / 149597870\<close>
  (the value the test expects, to within \<open>10\<^sup>-\<^sup>8\<close>), not \<open>-344.3553\<close> times the
  Earth-radius/AU factor of the package.
\<close>

theorem ParseSat2_earth_radius_counterexample:
  "tcSatLine2 ! 32 = CHR ''1''
   \<and> ParseSat2 ParseFloat_decimal tcSatLine2 ''03620'' tc_s1 =
       Ret (tc_s1\<lparr>Offset := \<lparr>X = - 344.3553 / 149597870, Y = - 6919.1239 / 149597870,
                              Z = 872.2948 / 149597870\<rparr>\<rparr>, None)
   \<and> - 344.3553 / 149597870 \<noteq> - 344.3553 * sf_earth_radius
   \<and> \<bar>- 344.3553 / 149597870 - (- 2301873014635837 / 10 ^ 21)\<bar> < (1 / 10 ^ 8 :: real)"
  by (simp add: tcSatLine2_def tc_s1_def sat2_eval sf_km_def sf_earth_radius_def
      TrimSpace_eval strconv_eval)

text \<open>
  C10, as the code has it. \<^verbatim>\<open>ParseSat2\<close> has no length check, and on a line shorter
  than 80 characters it never merges: it panics at the first slice that is out of
  range, unless a check on the columns before that slice fails first, in which case
  it returns that error and leaves the observation as it was. A line shorter than 12
  characters always panics; from 12 characters on a designation that differs is
  reported; from 32 characters on an invalid or different date is reported; a line
  that passes these checks panics at columns 78-80.
\<close>

theorem ParseSat2_short_line:
  assumes "length line80 < 80"
  shows "(ParseSat2 pf line80 des1 s1 = Panic
          \<or> ParseSat2 pf line80 des1 s1
              = Ret (s1, Some (Sat2Designation (TrimSpace (substr line80 0 12))))
          \<or> ParseSat2 pf line80 des1 s1 = Ret (s1, Some (Sat2InvalidDate (substr line80 15 32)))
          \<or> ParseSat2 pf line80 des1 s1 = Ret (s1, Some (Sat2DateDiffers (substr line80 15 32))))
       \<and> (length line80 < 12 \<longrightarrow> ParseSat2 pf line80 des1 s1 = Panic)
       \<and> (12 \<le> length line80 \<and> TrimSpace (substr line80 0 12) \<noteq> des1 \<longrightarrow>
            ParseSat2 pf line80 des1 s1
              = Ret (s1, Some (Sat2Designation (TrimSpace (substr line80 0 12)))))
       \<and> (12 \<le> length line80 \<and> TrimSpace (substr line80 0 12) = des1 \<and> length line80 < 32 \<longrightarrow>
            ParseSat2 pf line80 des1 s1 = Panic)
       \<and> (32 \<le> length line80 \<and> TrimSpace (substr line80 0 12) = des1
            \<and> ParseObs80Date pf (substr line80 15 32) = Ret (MJD s1, True) \<longrightarrow>
            ParseSat2 pf line80 des1 s1 = Panic)"
  using assms
  by (auto simp: ParseSat2_def slice_def substr_def split: go.splits prod.splits)

theorem ParseSat2_short_line_witness:
  "length ''03620       '' < 80
   \<and> ParseSat2 ParseFloat_decimal ''03620       '' ''03620'' tc_s1 = Panic
   \<and> ParseSat2 ParseFloat_decimal ''03620       '' ''K11Q14F'' tc_s1 =
       Ret (tc_s1, Some (Sat2Designation ''03620''))"
proof -
  have l: "length ''03620       '' < 80" by simp
  have t: "TrimSpace (substr ''03620       '' 0 12) = ''03620''"
    by (simp add: substr_def TrimSpace_eval)
  show ?thesis
    using ParseSat2_short_line [OF l, of ParseFloat_decimal "''03620''" tc_s1]
      ParseSat2_short_line [OF l, of ParseFloat_decimal "''K11Q14F''" tc_s1] t
    by simp
qed

text \<open>
  C10 as it is worded fails: not every line shorter than 80 characters panics. The
  first 47 characters of the test's continuation line, merged into an observation of
  another designation, give the designation error.
\<close>

theorem ParseSat2_short_line_counterexample:
  "length ''03620         s1996 08 30.51477 1 -  344.3553'' < 80
   \<and> ParseSat2 ParseFloat_decimal ''03620         s1996 08 30.51477 1 -  344.3553''
        ''K11Q14F'' tc_s1
       = Ret (tc_s1, Some (Sat2Designation ''03620''))
   \<and> ParseSat2 ParseFloat_decimal ''03620         s1996 08 30.51477 1 -  344.3553''
        ''K11Q14F'' tc_s1 \<noteq> Panic"
  by (simp add: ParseSat2_def slice_def TrimSpace_eval)

section \<open>The arc splitter: end of the stream\<close>

lemma tcSatLine1_shape: "length tcSatLine1 = 80" "tcSatLine1 ! 14 = CHR ''S''"
  by (simp_all add: tcSatLine1_def)

lemmas splitter_eval =
  ArcSplitter_def next_arc_def begin_arc_def arc_line_def arc_break_def scan_end_def

lemma next_arc_exhausted:
  assumes "exhausted st"
  shows "next_arc pf pMap st = Ret ((None, Some EOF), st\<lparr>var_a := (var_a st)\<lparr>Obs := []\<rparr>\<rparr>)"
    and "exhausted (st\<lparr>var_a := (var_a st)\<lparr>Obs := []\<rparr>\<rparr>)"
  using assms by (simp_all add: exhausted_def next_arc_def begin_arc_def scan_end_def)

lemma calls_exhausted:
  "exhausted st \<Longrightarrow>
     \<exists>st'. calls pf pMap k st = Ret (replicate k (None, Some EOF), st') \<and> exhausted st'"
proof (induction k arbitrary: st)
  case 0
  then show ?case by simp
next
  case (Suc k)
  let ?st1 = "st\<lparr>var_a := (var_a st)\<lparr>Obs := []\<rparr>\<rparr>"
  from Suc.prems have 1: "next_arc pf pMap st = Ret ((None, Some EOF), ?st1)"
    and 2: "exhausted ?st1"
    by (rule next_arc_exhausted)+
  from Suc.IH [OF 2] obtain st' where
    "calls pf pMap k ?st1 = Ret (replicate k (None, Some EOF), st')" "exhausted st'"
    by blast
  with 1 show ?case by simp
qed

lemma loop_inv_begin: "var_err st = None \<Longrightarrow> loop_inv (begin_arc st)"
  by (simp add: loop_inv_def begin_arc_def split: option.splits)

lemma arc_line_Continue_inv:
  "arc_line pf pMap line st = Continue st' \<Longrightarrow> loop_inv st \<Longrightarrow> loop_inv st'"
  by (auto simp: arc_line_def loop_inv_def split: if_splits option.splits VObs.splits go.splits
      prod.splits sum.splits)

lemma arc_line_Continue_scan:
  "arc_line pf pMap line st = Continue st' \<Longrightarrow> sc_Err st' = sc_Err st"
  by (auto simp: arc_line_def split: if_splits option.splits VObs.splits go.splits
      prod.splits sum.splits)

lemma arc_line_Break_not_EOF:
  "arc_line pf pMap line st = Break e st' \<Longrightarrow> e \<noteq> EOF"
  by (auto simp: arc_line_def split: if_splits option.splits VObs.splits go.splits
      prod.splits sum.splits)

lemma arc_line_Return_no_error:
  "arc_line pf pMap line st = Return r st' \<Longrightarrow> snd r = None \<and> var_err st' = var_err st"
  by (auto simp: arc_line_def split: if_splits option.splits VObs.splits go.splits
      prod.splits sum.splits)

lemma arc_loop_EOF:
  "arc_loop pf pMap ls st = Ret ((r, Some EOF), st') \<Longrightarrow> loop_inv st \<Longrightarrow>
     r = None \<and> exhausted st'"
proof (induction ls arbitrary: st)
  case Nil
  then show ?case
    by (auto simp: scan_end_def loop_inv_def exhausted_def split: option.splits if_splits)
next
  case (Cons line rest)
  show ?case
  proof (cases "arc_line pf pMap line st")
    case (Continue st1)
    with Cons.prems have "arc_loop pf pMap rest st1 = Ret ((r, Some EOF), st')" by simp
    moreover have "loop_inv st1" using Continue Cons.prems(2) by (rule arc_line_Continue_inv)
    ultimately show ?thesis by (rule Cons.IH)
  next
    case (Break e st1)
    then have "e \<noteq> EOF" by (rule arc_line_Break_not_EOF)
    with Break Cons.prems(1) show ?thesis
      by (auto simp: arc_break_def split: if_splits)
  next
    case (Return r1 st1)
    then have "snd r1 = None" by (auto dest: arc_line_Return_no_error)
    with Return Cons.prems(1) show ?thesis by auto
  next
    case LinePanic
    with Cons.prems(1) show ?thesis by simp
  qed
qed

lemma arc_loop_eof_inv:
  "arc_loop pf pMap ls st = Ret (r, st') \<Longrightarrow> loop_inv st \<Longrightarrow> eof_inv st'"
proof (induction ls arbitrary: st)
  case Nil
  then show ?case
    by (auto simp: scan_end_def loop_inv_def eof_inv_def split: option.splits if_splits)
next
  case (Cons line rest)
  show ?case
  proof (cases "arc_line pf pMap line st")
    case (Continue st1)
    with Cons.prems have "arc_loop pf pMap rest st1 = Ret (r, st')" by simp
    moreover have "loop_inv st1" using Continue Cons.prems(2) by (rule arc_line_Continue_inv)
    ultimately show ?thesis by (rule Cons.IH)
  next
    case (Break e st1)
    then have "e \<noteq> EOF" by (rule arc_line_Break_not_EOF)
    with Break Cons.prems(1) show ?thesis
      by (auto simp: arc_break_def eof_inv_def split: if_splits)
  next
    case (Return r1 st1)
    then have "var_err st1 = var_err st" by (auto dest: arc_line_Return_no_error)
    with Return Cons.prems show ?thesis by (auto simp: eof_inv_def loop_inv_def)
  next
    case LinePanic
    with Cons.prems(1) show ?thesis by simp
  qed
qed

lemma next_arc_eof_inv:
  "next_arc pf pMap st = Ret (r, st') \<Longrightarrow> eof_inv st'"
proof (cases "var_err st")
  case None
  assume "next_arc pf pMap st = Ret (r, st')"
  with None have "arc_loop pf pMap (sc_lines st) (begin_arc st) = Ret (r, st')"
    by (simp add: next_arc_def)
  moreover have "loop_inv (begin_arc st)" using None by (rule loop_inv_begin)
  ultimately show ?thesis by (rule arc_loop_eof_inv)
next
  case (Some e)
  assume "next_arc pf pMap st = Ret (r, st')"
  with Some show ?thesis by (auto simp: next_arc_def eof_inv_def)
qed

lemma calls_eof_inv:
  "calls pf pMap n st = Ret (rs, st') \<Longrightarrow> eof_inv st \<Longrightarrow> eof_inv st'"
proof (induction n arbitrary: st rs)
  case 0
  then show ?case by simp
next
  case (Suc n)
  from Suc.prems(1) obtain r st1 rs1 where
    1: "next_arc pf pMap st = Ret (r, st1)" and 2: "calls pf pMap n st1 = Ret (rs1, st')"
    by (auto split: go.splits prod.splits)
  from 1 have "eof_inv st1" by (rule next_arc_eof_inv)
  with 2 show ?case by (rule Suc.IH)
qed

lemma eof_inv_ArcSplitter: "eof_inv (ArcSplitter rObs rErr)"
  by (simp add: eof_inv_def ArcSplitter_def)

text \<open>
  C2. Once a call has returned \<^verbatim>\<open>io.EOF\<close>, it has returned no arc with it, and every
  later call returns \<^verbatim>\<open>nil\<close> and \<^verbatim>\<open>io.EOF\<close> again, for every input and after any number
  of earlier calls.
\<close>

theorem end_of_stream_idempotent:
  assumes "calls pf pMap n (ArcSplitter rObs rErr) = Ret (rs, st)"
    and "next_arc pf pMap st = Ret ((r, Some EOF), st')"
  shows "r = None
         \<and> (\<forall>k. \<exists>st''. calls pf pMap k st' = Ret (replicate k (None, Some EOF), st''))"
proof -
  have inv: "eof_inv st"
    using assms(1) eof_inv_ArcSplitter by (rule calls_eof_inv)
  have "r = None \<and> exhausted st'"
  proof (cases "var_err st")
    case None
    with assms(2) have "arc_loop pf pMap (sc_lines st) (begin_arc st) = Ret ((r, Some EOF), st')"
      by (simp add: next_arc_def)
    moreover have "loop_inv (begin_arc st)" using None by (rule loop_inv_begin)
    ultimately show ?thesis by (rule arc_loop_EOF)
  next
    case (Some e)
    with assms(2) inv show ?thesis
      by (auto simp: next_arc_def eof_inv_def exhausted_def)
  qed
  then show ?thesis using calls_exhausted by blast
qed

theorem end_of_stream_idempotent_witness:
  "calls ParseFloat_decimal tc_pMap 1 (ArcSplitter [tcSatLine1] None) =
     Ret ([(Some \<lparr>Desig = ''03620'', Obs = [VSat tc_s1]\<rparr>, None)],
          \<lparr>sc_lines = [], sc_Err = None, var_a = \<lparr>Desig = ''03620'', Obs = [VSat tc_s1]\<rparr>,
           var_desig = ''03620'', var_o = None, var_err = Some EOF\<rparr>)
   \<and> next_arc ParseFloat_decimal tc_pMap
        \<lparr>sc_lines = [], sc_Err = None, var_a = \<lparr>Desig = ''03620'', Obs = [VSat tc_s1]\<rparr>,
         var_desig = ''03620'', var_o = None, var_err = Some EOF\<rparr> =
     Ret ((None, Some EOF),
          \<lparr>sc_lines = [], sc_Err = None, var_a = \<lparr>Desig = ''03620'', Obs = [VSat tc_s1]\<rparr>,
           var_desig = ''03620'', var_o = None, var_err = None\<rparr>)
   \<and> (\<forall>k. \<exists>st''. calls ParseFloat_decimal tc_pMap k
        \<lparr>sc_lines = [], sc_Err = None, var_a = \<lparr>Desig = ''03620'', Obs = [VSat tc_s1]\<rparr>,
         var_desig = ''03620'', var_o = None, var_err = None\<rparr> =
       Ret (replicate k (None, Some EOF), st''))"
proof -
  let ?st1 = "\<lparr>sc_lines = [], sc_Err = None, var_a = \<lparr>Desig = ''03620'', Obs = [VSat tc_s1]\<rparr>,
           var_desig = ''03620'', var_o = None, var_err = Some EOF\<rparr>"
  let ?st2 = "\<lparr>sc_lines = [], sc_Err = None, var_a = \<lparr>Desig = ''03620'', Obs = [VSat tc_s1]\<rparr>,
           var_desig = ''03620'', var_o = None, var_err = None\<rparr>"
  have c: "calls ParseFloat_decimal tc_pMap 1 (ArcSplitter [tcSatLine1] None) =
     Ret ([(Some \<lparr>Desig = ''03620'', Obs = [VSat tc_s1]\<rparr>, None)], ?st1)"
    by (simp add: splitter_eval tcSatLine1_shape tcSatLine1_parsed)
  have n: "next_arc ParseFloat_decimal tc_pMap ?st1 = Ret ((None, Some EOF), ?st2)"
    by (simp add: next_arc_def)
  from end_of_stream_idempotent [OF c n] c n show ?thesis by simp
qed

section \<open>The arc splitter: arcs and designations\<close>

lemma tcSatLine1_decoded:
  "decoded ParseFloat_decimal tc_pMap tcSatLine1 = Some (''03620'', VSat tc_s1)"
  by (simp add: decoded_def tcSatLine1_shape tcSatLine1_parsed)

lemma arc_loop_absorb:
  "absorb pf pMap ls st = Some st1 \<Longrightarrow> arc_loop pf pMap (ls @ rest) st = arc_loop pf pMap rest st1"
  by (induction ls arbitrary: st) (auto split: line_result.splits)

lemma arc_line_Break_state:
  "arc_line pf pMap line st = Break e st' \<Longrightarrow>
     var_a st' = var_a st \<and> sc_Err st' = sc_Err st \<and> var_err st' = var_err st"
  by (auto simp: arc_line_def split: if_splits option.splits VObs.splits go.splits
      prod.splits sum.splits)

lemma arc_line_decoded:
  assumes "decoded pf pMap line = Some (d, ob)"
  shows "arc_line pf pMap line st =
           (if Obs (var_a st) = []
            then Continue (st\<lparr>var_desig := d, var_o := Some ob,
                              var_a := \<lparr>Desig = d, Obs = [ob]\<rparr>\<rparr>)
            else if d = Desig (var_a st)
            then Continue (st\<lparr>var_desig := d, var_o := Some ob,
                              var_a := (var_a st)\<lparr>Obs := Obs (var_a st) @ [ob]\<rparr>\<rparr>)
            else Return (Some (var_a st), None) (st\<lparr>var_desig := d, var_o := Some ob\<rparr>))"
  using assms
  by (auto simp: decoded_def arc_line_def split: if_splits go.splits sum.splits)








lemma arc_line_merge:
  assumes "arc_line pf pMap l st = Continue st1" and "l ! 14 = CHR ''s''"
  shows "\<exists>s1 s1'. var_o st = Some (VSat s1)
           \<and> ParseSat2 pf l (var_desig st) s1 = Ret (s1', None)
           \<and> st1 = st\<lparr>var_o := Some (VSat s1'),
                       var_a := (var_a st)\<lparr>Obs :=
                          (Obs (var_a st))[length (Obs (var_a st)) - 1 := VSat s1']\<rparr>\<rparr>"
  using assms
  by (auto simp: arc_line_def split: if_splits option.splits VObs.splits go.splits prod.splits)

lemma arc_line_observation:
  assumes "arc_line pf pMap l st = Continue st1" and "l ! 14 \<noteq> CHR ''s''"
  shows "\<exists>d ob. decoded pf pMap l = Some (d, ob)
           \<and> (Obs (var_a st) = [] \<or> d = Desig (var_a st))
           \<and> st1 = st\<lparr>var_desig := d, var_o := Some ob,
                       var_a := \<lparr>Desig = d, Obs = Obs (var_a st) @ [ob]\<rparr>\<rparr>"
  using assms
  by (auto simp: arc_line_def decoded_def split: if_splits go.splits sum.splits)


lemma arc_line_Continue_arc_inv:
  assumes "arc_line pf pMap l st = Continue st1" and "arc_inv st"
  shows "arc_inv st1 \<and> Obs (var_a st1) \<noteq> []"
proof (cases "l ! 14 = CHR ''s''")
  case True
  from arc_line_merge [OF assms(1) True] obtain s1 s1' where
    o: "var_o st = Some (VSat s1)"
    and st1: "st1 = st\<lparr>var_o := Some (VSat s1'),
                       var_a := (var_a st)\<lparr>Obs :=
                          (Obs (var_a st))[length (Obs (var_a st)) - 1 := VSat s1']\<rparr>\<rparr>"
    by blast
  from assms(2) o have ne: "Obs (var_a st) \<noteq> []" and d: "var_desig st = Desig (var_a st)"
    and e: "var_err st = None"
    by (simp_all add: arc_inv_def)
  show ?thesis using ne d e by (simp add: st1 arc_inv_def last_list_update)
next
  case False
  from arc_line_observation [OF assms(1) False] obtain d ob where
    "st1 = st\<lparr>var_desig := d, var_o := Some ob,
                       var_a := \<lparr>Desig = d, Obs = Obs (var_a st) @ [ob]\<rparr>\<rparr>"
    by blast
  with assms(2) show ?thesis by (simp add: arc_inv_def)
qed

lemma arc_line_Break_failure:
  assumes "arc_inv st" and "Obs (var_a st) \<noteq> []"
  shows "(\<exists>st1. arc_line pf pMap l st = Break e st1) \<longleftrightarrow> failure pf pMap (var_a st) l = Some e"
proof -
  from assms obtain ob where o: "var_o st = Some ob" and la: "last (Obs (var_a st)) = ob"
    and d: "var_desig st = Desig (var_a st)"
    by (cases "var_o st") (simp_all add: arc_inv_def)
  show ?thesis
  proof (cases "length l = 80")
    case False
    then show ?thesis by (auto simp: arc_line_def failure_def)
  next
    case len: True
    show ?thesis
    proof (cases "l ! 14 = CHR ''s''")
      case True
      show ?thesis
      proof (cases ob)
        case (VSite s)
        with len True o la show ?thesis by (auto simp: arc_line_def failure_def)
      next
        case (VSat s1)
        with len True o la d show ?thesis
          by (auto simp: arc_line_def failure_def split: go.splits prod.splits option.splits)
      qed
    next
      case False
      with len show ?thesis
        by (auto simp: arc_line_def failure_def split: go.splits prod.splits sum.splits)
    qed
  qed
qed








lemma arc_inv_begin: "var_err st = None \<Longrightarrow> arc_inv (begin_arc st)"
  by (simp add: arc_inv_def begin_arc_def split: option.splits)







section \<open>The arc splitter: parse failures\<close>

lemma absorb_run:
  assumes "map (decoded pf pMap) run = map (\<lambda>ob. Some (d, ob)) obs"
    and "Obs (var_a st) = [] \<or> Desig (var_a st) = d"
  shows "\<exists>st1. absorb pf pMap run st = Some st1
           \<and> Obs (var_a st1) = Obs (var_a st) @ obs
           \<and> (run \<noteq> [] \<longrightarrow> Desig (var_a st1) = d \<and> var_desig st1 = d)
           \<and> (run = [] \<longrightarrow> st1 = st)
           \<and> var_err st1 = var_err st \<and> sc_Err st1 = sc_Err st"
  using assms
proof (induction run arbitrary: st obs)
  case Nil
  then show ?case by simp
next
  case (Cons l run)
  from Cons.prems(1) obtain ob obs' where obs: "obs = ob # obs'"
    and l: "decoded pf pMap l = Some (d, ob)"
    and run: "map (decoded pf pMap) run = map (\<lambda>ob. Some (d, ob)) obs'"
    by (cases obs) auto
  define st' where "st' = (if Obs (var_a st) = []
            then st\<lparr>var_desig := d, var_o := Some ob, var_a := \<lparr>Desig = d, Obs = [ob]\<rparr>\<rparr>
            else st\<lparr>var_desig := d, var_o := Some ob,
                              var_a := (var_a st)\<lparr>Obs := Obs (var_a st) @ [ob]\<rparr>\<rparr>)"
  have step: "arc_line pf pMap l st = Continue st'"
    using Cons.prems(2) by (auto simp: arc_line_decoded [OF l] st'_def)
  have st': "Obs (var_a st') = Obs (var_a st) @ [ob]" "Desig (var_a st') = d" "var_desig st' = d"
    "var_err st' = var_err st" "sc_Err st' = sc_Err st"
    using Cons.prems(2) by (auto simp: st'_def)
  from Cons.IH [OF run, of st'] st'(2) obtain st1 where
    "absorb pf pMap run st' = Some st1" "Obs (var_a st1) = Obs (var_a st') @ obs'"
    "run \<noteq> [] \<longrightarrow> Desig (var_a st1) = d \<and> var_desig st1 = d" "run = [] \<longrightarrow> st1 = st'"
    "var_err st1 = var_err st'" "sc_Err st1 = sc_Err st'"
    by blast
  with step st' obs show ?case by (cases "run = []") auto
qed

lemma next_arc_run:
  assumes "var_err st = None" and "var_o st = None"
    and "sc_lines st = run @ tail" and "run \<noteq> []"
    and "map (decoded pf pMap) run = map (\<lambda>ob. Some (d, ob)) obs"
    and "(tail = [] \<and> sc_Err st = None)
         \<or> (\<exists>nxt more d' ob'. tail = nxt # more \<and> decoded pf pMap nxt = Some (d', ob') \<and> d' \<noteq> d)"
  shows "\<exists>st'. next_arc pf pMap st = Ret ((Some \<lparr>Desig = d, Obs = obs\<rparr>, None), st')"
proof -
  let ?st0 = "begin_arc st"
  have 0: "Obs (var_a ?st0) = []" "var_err ?st0 = None" "sc_Err ?st0 = sc_Err st"
    using assms(2) by (simp_all add: begin_arc_def assms(1))
  from absorb_run [OF assms(5), of ?st0] 0 assms(4) obtain st1 where
    a: "absorb pf pMap run ?st0 = Some st1" and o: "Obs (var_a st1) = obs"
    and d: "Desig (var_a st1) = d" and e: "var_err st1 = None" "sc_Err st1 = sc_Err st"
    by auto
  have arc: "var_a st1 = \<lparr>Desig = d, Obs = obs\<rparr>" using o d by simp
  have ne: "obs \<noteq> []" using assms(4,5) by (cases run; cases obs) auto
  have "next_arc pf pMap st = arc_loop pf pMap tail st1"
    using assms(1,3) a by (simp add: next_arc_def arc_loop_absorb)
  moreover from assms(6) have "\<exists>st'. arc_loop pf pMap tail st1 = Ret ((Some \<lparr>Desig = d, Obs = obs\<rparr>, None), st')"
  proof
    assume "tail = [] \<and> sc_Err st = None"
    then show ?thesis using e ne arc by (simp add: scan_end_def)
  next
    assume "\<exists>nxt more d' ob'. tail = nxt # more \<and> decoded pf pMap nxt = Some (d', ob') \<and> d' \<noteq> d"
    then obtain nxt more d' ob' where t: "tail = nxt # more"
      and n: "decoded pf pMap nxt = Some (d', ob')" and dd: "d' \<noteq> d" by blast
    show ?thesis using ne dd arc by (simp add: t arc_line_decoded [OF n])
  qed
  ultimately show ?thesis by simp
qed

text \<open>
  A call whose loop is left by \<^verbatim>\<open>break arc\<close> while the arc holds observations: the
  call returns the arc built so far with no error, the next call returns no arc
  and the error, and after that the splitter carries nothing, so that a run of
  observation lines of one designation that follows, ended by the end of the input
  or by an observation line of another designation, is returned as its arc.
\<close>

lemma break_flushes_and_recovers:
  assumes "var_err st = None"
    and "sc_lines st = good @ bad # rest"
    and "absorb pf pMap good (begin_arc st) = Some st1"
    and "arc_line pf pMap bad st1 = Break e st2"
    and "Obs (var_a st1) \<noteq> []"
  shows "next_arc pf pMap st
           = Ret ((Some (var_a st1), None), st2\<lparr>sc_lines := rest, var_o := None, var_err := Some e\<rparr>)"
    and "next_arc pf pMap (st2\<lparr>sc_lines := rest, var_o := None, var_err := Some e\<rparr>)
           = Ret ((None, Some e), st2\<lparr>sc_lines := rest, var_o := None, var_err := None\<rparr>)"
    and "rest = run @ tail \<Longrightarrow> run \<noteq> [] \<Longrightarrow>
         map (decoded pf pMap) run = map (\<lambda>ob. Some (d, ob)) obs \<Longrightarrow>
         (tail = [] \<and> sc_Err st = None)
           \<or> (\<exists>nxt more d' ob'. tail = nxt # more
                 \<and> decoded pf pMap nxt = Some (d', ob') \<and> d' \<noteq> d) \<Longrightarrow>
         \<exists>s3. next_arc pf pMap (st2\<lparr>sc_lines := rest, var_o := None, var_err := None\<rparr>)
                 = Ret ((Some \<lparr>Desig = d, Obs = obs\<rparr>, None), s3)"
proof -
  let ?s1 = "st2\<lparr>sc_lines := rest, var_o := None, var_err := Some e\<rparr>"
  let ?s2 = "st2\<lparr>sc_lines := rest, var_o := None, var_err := None\<rparr>"
  from assms(4) have b: "var_a st2 = var_a st1" "sc_Err st2 = sc_Err st1"
    by (auto dest: arc_line_Break_state)
  have "sc_Err st1 = sc_Err st"
  proof -
    have "\<And>st st1. absorb pf pMap good st = Some st1 \<Longrightarrow> sc_Err st1 = sc_Err st"
      by (induction good) (auto split: line_result.splits dest: arc_line_Continue_scan)
    from this [OF assms(3)] show ?thesis by (simp add: begin_arc_def split: option.splits)
  qed
  with b have se: "sc_Err st2 = sc_Err st" by simp
  show "next_arc pf pMap st = Ret ((Some (var_a st1), None), ?s1)"
    using assms(1,2,4,5) b by (simp add: next_arc_def arc_loop_absorb [OF assms(3)] arc_break_def)
  show "next_arc pf pMap ?s1 = Ret ((None, Some e), ?s2)"
    by (simp add: next_arc_def)
  show "\<exists>s3. next_arc pf pMap ?s2 = Ret ((Some \<lparr>Desig = d, Obs = obs\<rparr>, None), s3)"
    if "rest = run @ tail" and "run \<noteq> []"
      and "map (decoded pf pMap) run = map (\<lambda>ob. Some (d, ob)) obs"
      and "(tail = [] \<and> sc_Err st = None)
           \<or> (\<exists>nxt more d' ob'. tail = nxt # more
                 \<and> decoded pf pMap nxt = Some (d', ob') \<and> d' \<noteq> d)"
  proof (rule next_arc_run [where run = run and tail = tail])
    show "var_err ?s2 = None" "var_o ?s2 = None" by simp_all
    show "sc_lines ?s2 = run @ tail" using that by simp
    show "run \<noteq> []" using that by simp
    show "map (decoded pf pMap) run = map (\<lambda>ob. Some (d, ob)) obs" using that by simp
    show "(tail = [] \<and> sc_Err ?s2 = None)
           \<or> (\<exists>nxt more d' ob'. tail = nxt # more
                 \<and> decoded pf pMap nxt = Some (d', ob') \<and> d' \<noteq> d)"
      using that se by simp
  qed
qed

lemma absorb_arc_inv:
  "absorb pf pMap ls st = Some st1 \<Longrightarrow> arc_inv st \<Longrightarrow> arc_inv st1"
proof (induction ls arbitrary: st)
  case Nil
  then show ?case by simp
next
  case (Cons l ls)
  from Cons.prems(1) obtain st0 where
    l: "arc_line pf pMap l st = Continue st0" and ls: "absorb pf pMap ls st0 = Some st1"
    by (auto split: line_result.splits)
  from arc_line_Continue_arc_inv [OF l Cons.prems(2)] have "arc_inv st0" by simp
  with ls show ?case by (rule Cons.IH)
qed

text \<open>
  Where the line that fails is one for which the decoders return an error
  (\<open>failure\<close>: a wrong length, an error of \<^verbatim>\<open>ParseObs80\<close>, a continuation line without
  its first line, an error of \<^verbatim>\<open>ParseSat2\<close>), the splitter does what is asked of it.
  The loop takes in the lines \<open>good\<close> and the line \<open>bad\<close> fails with the error \<open>e\<close>
  while the arc holds observations. Then this call returns the arc built so far
  with no error, the next call returns no arc and the error \<open>e\<close>, and whenever the
  lines after \<open>bad\<close> start with a run of observation lines of one designation, ended
  by the end of the input or by an observation line of another designation, the
  following call returns the arc of that designation with the observations of
  exactly the lines of the run. An error of \<^verbatim>\<open>ParseSat2\<close> is reported as it is, not
  wrapped in \<^verbatim>\<open>ArcError\<close> as the others are.
\<close>

lemma decoder_error_flushes_and_recovers:
  assumes "var_err st = None"
    and "sc_lines st = good @ bad # rest"
    and "absorb pf pMap good (begin_arc st) = Some st1"
    and "Obs (var_a st1) \<noteq> []"
    and "failure pf pMap (var_a st1) bad = Some e"
  shows "\<exists>s1 s2.
           next_arc pf pMap st = Ret ((Some (var_a st1), None), s1)
         \<and> next_arc pf pMap s1 = Ret ((None, Some e), s2)
         \<and> (\<forall>run tail d obs.
              rest = run @ tail \<and> run \<noteq> []
              \<and> map (decoded pf pMap) run = map (\<lambda>ob. Some (d, ob)) obs
              \<and> ((tail = [] \<and> sc_Err st = None)
                 \<or> (\<exists>nxt more d' ob'. tail = nxt # more
                       \<and> decoded pf pMap nxt = Some (d', ob') \<and> d' \<noteq> d))
              \<longrightarrow> (\<exists>s3. next_arc pf pMap s2 = Ret ((Some \<lparr>Desig = d, Obs = obs\<rparr>, None), s3)))"
proof -
  have "arc_inv st1"
    using assms(3) arc_inv_begin [OF assms(1)] by (rule absorb_arc_inv)
  from arc_line_Break_failure [OF this assms(4), of pf pMap bad e] assms(5)
  obtain st2 where b: "arc_line pf pMap bad st1 = Break e st2" by blast
  note r = break_flushes_and_recovers [OF assms(1,2,3) b assms(4)]
  let ?s1 = "st2\<lparr>sc_lines := rest, var_o := None, var_err := Some e\<rparr>"
  let ?s2 = "st2\<lparr>sc_lines := rest, var_o := None, var_err := None\<rparr>"
  have "\<forall>run tail d obs.
              rest = run @ tail \<and> run \<noteq> []
              \<and> map (decoded pf pMap) run = map (\<lambda>ob. Some (d, ob)) obs
              \<and> ((tail = [] \<and> sc_Err st = None)
                 \<or> (\<exists>nxt more d' ob'. tail = nxt # more
                       \<and> decoded pf pMap nxt = Some (d', ob') \<and> d' \<noteq> d))
              \<longrightarrow> (\<exists>s3. next_arc pf pMap ?s2 = Ret ((Some \<lparr>Desig = d, Obs = obs\<rparr>, None), s3))"
    using r(3) by (intro allI impI) (elim conjE)
  with r(1,2) show ?thesis by (intro exI conjI)
qed

lemma bad_month_line_shape: "length bad_month_line = 80" "bad_month_line ! 14 = CHR ''S''"
  by (simp_all add: bad_month_line_def)

lemma bad_month_line_panics: "ParseObs80 ParseFloat_decimal ocm bad_month_line = Panic"
  by (simp add: bad_month_line_def obs80_eval TrimSpace_eval strconv_eval)

text \<open>
  C1. An observation line followed by a line of 80 characters with a bad date
  field, the month 13. For the second line \<^verbatim>\<open>ParseObs80\<close> does not return an error:
  it panics, at the index into \<^verbatim>\<open>flookup\<close> that \<^verbatim>\<open>ParseObs80Date\<close> does not check. So
  the first call of the splitter panics while the arc holds the observation of the
  first line: the arc is not returned, no error is reported, and no call follows.
  (For a line on which the decoders return an error the splitter returns the arc,
  reports the error on the next call and goes on, by the lemma above.)
\<close>

theorem ArcSplitter_bad_month_loses_arc:
  "length bad_month_line = 80
   \<and> decoded ParseFloat_decimal tc_pMap tcSatLine1 = Some (''03620'', VSat tc_s1)
   \<and> next_arc ParseFloat_decimal tc_pMap (ArcSplitter [tcSatLine1, bad_month_line] None) = Panic"
  by (simp add: splitter_eval tcSatLine1_decoded tcSatLine1_shape tcSatLine1_parsed
      bad_month_line_shape bad_month_line_panics)

section \<open>Tracklets: the order of the input\<close>

lemma go_fwd_admissible: "admissible go_fwd"
  by (simp add: admissible_def go_fwd_def)


lemmas tracklet_eval = FindTrackletsIndex_def tracklets_def go_fwd_def go_rev_def reduce.simps
  appendTl_def

lemma longest_gap_bounds:
  "split < s \<Longrightarrow> 0 < split \<Longrightarrow>
     0 < longest_gap xs s nxt longest split \<and> longest_gap xs s nxt longest split < s + length xs"
proof (induction xs arbitrary: s nxt longest split)
  case Nil
  then show ?case by simp
next
  case (Cons x xs)
  have a: "0 < longest_gap xs (Suc s) (mjd x) (mjd x - nxt) s
         \<and> longest_gap xs (Suc s) (mjd x) (mjd x - nxt) s < Suc s + length xs"
    using Cons.prems by (intro Cons.IH) auto
  have b: "0 < longest_gap xs (Suc s) (mjd x) longest split
         \<and> longest_gap xs (Suc s) (mjd x) longest split < Suc s + length xs"
    using Cons.prems by (intro Cons.IH) auto
  show ?case using a b by simp
qed

lemma split_at_bounds:
  assumes "2 \<le> length tset"
  shows "0 < split_at tset" and "split_at tset < length tset"
proof -
  have "0 < split_at tset \<and> split_at tset < 2 + length (drop 2 tset)"
    unfolding split_at_def by (rule longest_gap_bounds) simp_all
  moreover have "2 + length (drop 2 tset) = length tset"
    using assms by simp
  ultimately show "0 < split_at tset" and "split_at tset < length tset" by simp_all
qed

lemma mjd_imap [simp]: "mjd (imap f x) = mjd x"
  by (simp add: imap_def)

lemma index_imap [simp]: "index (imap f x) = f (index x)"
  by (simp add: imap_def)

lemma mean_mmap [simp]: "mean (mmap f t) = mean t"
  by (simp add: mmap_def)

lemma members_mmap [simp]: "members (mmap f t) = map f (members t)"
  by (simp add: mmap_def)


lemma reduce_decide:
  "reduce tset tlist =
     (case decide tset of
        Fail \<Rightarrow> Panic
      | Whole \<Rightarrow> Ret (appendTl tset tlist)
      | Singles \<Rightarrow> Ret (appendTl (drop 1 tset) (appendTl (take 1 tset) tlist))
      | Recurse sp \<Rightarrow>
          (case reduce (take sp tset) tlist of
             Panic \<Rightarrow> Panic
           | Ret tlist1 \<Rightarrow> reduce (drop sp tset) tlist1)
      | AcceptLeft sp \<Rightarrow> reduce (drop sp tset) (appendTl (take sp tset) tlist)
      | AcceptRight sp \<Rightarrow>
          (case reduce (take sp tset) tlist of
             Panic \<Rightarrow> Panic
           | Ret tlist1 \<Rightarrow> Ret (appendTl (drop sp tset) tlist1)))"
proof -
  let ?d = "mjd (last tset) - mjd (hd tset)"
  let ?lf = "take (split_at tset) tset"
  let ?rt = "drop (split_at tset) tset"
  let ?L = "length ?lf = 2 \<and> length ?rt \<ge> 2 \<and> mjd (?lf ! 1) - mjd (?lf ! 0) < 0.5"
  let ?R = "length ?rt = 2 \<and> length ?lf \<ge> 2 \<and> mjd (?rt ! 1) - mjd (?rt ! 0) < 0.5"
  consider
      (a) "tset = []"
    | (b) "tset \<noteq> []" "?d < 0.042"
    | (c) "tset \<noteq> []" "\<not> ?d < 0.042" "length tset \<le> 5 \<and> ?d < 0.125"
    | (d) "tset \<noteq> []" "\<not> ?d < 0.042" "\<not> (length tset \<le> 5 \<and> ?d < 0.125)" "length tset = 2"
    | (e) "tset \<noteq> []" "\<not> ?d < 0.042" "\<not> (length tset \<le> 5 \<and> ?d < 0.125)" "length tset \<noteq> 2"
          "length tset < 2"
    | (f) "tset \<noteq> []" "\<not> ?d < 0.042" "\<not> (length tset \<le> 5 \<and> ?d < 0.125)" "length tset \<noteq> 2"
          "\<not> length tset < 2" "length ?lf \<ge> 3 \<and> length ?rt \<ge> 3"
    | (g) "tset \<noteq> []" "\<not> ?d < 0.042" "\<not> (length tset \<le> 5 \<and> ?d < 0.125)" "length tset \<noteq> 2"
          "\<not> length tset < 2" "\<not> (length ?lf \<ge> 3 \<and> length ?rt \<ge> 3)" "?L"
    | (h) "tset \<noteq> []" "\<not> ?d < 0.042" "\<not> (length tset \<le> 5 \<and> ?d < 0.125)" "length tset \<noteq> 2"
          "\<not> length tset < 2" "\<not> (length ?lf \<ge> 3 \<and> length ?rt \<ge> 3)" "\<not> ?L" "?R"
    | (i) "tset \<noteq> []" "\<not> ?d < 0.042" "\<not> (length tset \<le> 5 \<and> ?d < 0.125)" "length tset \<noteq> 2"
          "\<not> length tset < 2" "\<not> (length ?lf \<ge> 3 \<and> length ?rt \<ge> 3)" "\<not> ?L" "\<not> ?R"
          "length tset = 3 \<and> ?d < 0.5"
    | (j) "tset \<noteq> []" "\<not> ?d < 0.042" "\<not> (length tset \<le> 5 \<and> ?d < 0.125)" "length tset \<noteq> 2"
          "\<not> length tset < 2" "\<not> (length ?lf \<ge> 3 \<and> length ?rt \<ge> 3)" "\<not> ?L" "\<not> ?R"
          "\<not> (length tset = 3 \<and> ?d < 0.5)" "?d < 0.25"
    | (k) "tset \<noteq> []" "\<not> ?d < 0.042" "\<not> (length tset \<le> 5 \<and> ?d < 0.125)" "length tset \<noteq> 2"
          "\<not> length tset < 2" "\<not> (length ?lf \<ge> 3 \<and> length ?rt \<ge> 3)" "\<not> ?L" "\<not> ?R"
          "\<not> (length tset = 3 \<and> ?d < 0.5)" "\<not> ?d < 0.25"
    by blast
  then show ?thesis
  proof cases
    case a
    then show ?thesis by (subst reduce.simps) (simp only: decide_def Let_def if_True if_False decision.case simp_thms)
  next
    case b
    then show ?thesis
      by (subst reduce.simps) (simp only: decide_def Let_def if_True if_False decision.case simp_thms)
  next
    case c
    then show ?thesis
      by (subst reduce.simps) (simp only: decide_def Let_def if_True if_False decision.case simp_thms)
  next
    case d
    show ?thesis
    proof (cases "?d < 0.5")
      case True
      with d show ?thesis
        by (subst reduce.simps)
          (simp only: decide_def Let_def if_True if_False decision.case simp_thms)
    next
      case False
      with d show ?thesis
        by (subst reduce.simps)
          (simp only: decide_def Let_def if_True if_False decision.case simp_thms)
    qed
  next
    case e
    then show ?thesis
      by (subst reduce.simps) (simp only: decide_def Let_def if_True if_False decision.case simp_thms)
  next
    case f
    then show ?thesis
      by (subst reduce.simps) (simp only: decide_def Let_def if_True if_False decision.case simp_thms)
  next
    case g
    then show ?thesis
      by (subst reduce.simps) (simp only: decide_def Let_def if_True if_False decision.case simp_thms)
  next
    case h
    then show ?thesis
      by (subst reduce.simps) (simp only: decide_def Let_def if_True if_False decision.case simp_thms)
  next
    case i
    then show ?thesis
      by (subst reduce.simps) (simp only: decide_def Let_def if_True if_False decision.case simp_thms)
  next
    case j
    then show ?thesis
      by (subst reduce.simps) (simp only: decide_def Let_def if_True if_False decision.case simp_thms)
  next
    case k
    then show ?thesis
      by (subst reduce.simps) (simp only: decide_def Let_def if_True if_False decision.case simp_thms)
  qed
qed

lemma decide_Fail: "decide tset = Fail \<longleftrightarrow> tset = []"
proof
  assume f: "decide tset = Fail"
  show "tset = []"
  proof (rule ccontr)
    assume ne: "tset \<noteq> []"
    show False
    proof (cases "length tset < 2")
      case True
      with ne obtain a where "tset = [a]" by (cases tset) auto
      then have "decide tset = Whole" by (simp add: decide_def)
      with f show False by simp
    next
      case False
      with f ne show False
        by (auto simp: decide_def Let_def split: if_splits)
    qed
  qed
next
  assume "tset = []"
  then show "decide tset = Fail" by (simp add: decide_def)
qed

lemma decide_split:
  assumes "decide tset = Recurse sp \<or> decide tset = AcceptLeft sp \<or> decide tset = AcceptRight sp"
  shows "sp = split_at tset" and "0 < sp" and "sp < length tset"
proof -
  from assms have sp: "sp = split_at tset" and len: "2 \<le> length tset"
    by (auto simp: decide_def Let_def split: if_splits)
  show "sp = split_at tset" by (rule sp)
  show "0 < sp" "sp < length tset" using split_at_bounds [OF len] sp by simp_all
qed


lemma appendTl_append: "appendTl tset tlist = tlist @ appendTl tset []"
  by (simp add: appendTl_def)


lemma reduce_total:
  "tset \<noteq> [] \<Longrightarrow> \<exists>new. \<forall>tlist. reduce tset tlist = Ret (tlist @ new)"
proof (induction tset rule: length_induct)
  case (1 tset)
  note ne = \<open>tset \<noteq> []\<close>
  have ih: "\<exists>new. \<forall>tlist. reduce ys tlist = Ret (tlist @ new)"
    if "length ys < length tset" "ys \<noteq> []" for ys
    using 1 that by blast
  have parts: "\<exists>n1 n2. (\<forall>tlist. reduce (take sp tset) tlist = Ret (tlist @ n1))
                    \<and> (\<forall>tlist. reduce (drop sp tset) tlist = Ret (tlist @ n2))"
    if "decide tset = Recurse sp \<or> decide tset = AcceptLeft sp \<or> decide tset = AcceptRight sp"
    for sp
  proof -
    from decide_split [OF that] have "0 < sp" "sp < length tset" by simp_all
    then have "length (take sp tset) < length tset" "take sp tset \<noteq> []"
      "length (drop sp tset) < length tset" "drop sp tset \<noteq> []"
      by auto
    with ih show ?thesis by blast
  qed
  show ?case
  proof (cases "decide tset")
    case Fail
    with ne show ?thesis by (simp add: decide_Fail)
  next
    case Whole
    then have "\<forall>tlist. reduce tset tlist = Ret (tlist @ appendTl tset [])"
      by (simp add: reduce_decide appendTl_append [symmetric])
    then show ?thesis by blast
  next
    case Singles
    then have "\<forall>tlist. reduce tset tlist
                 = Ret (tlist @ (appendTl (take 1 tset) [] @ appendTl (drop 1 tset) []))"
      by (simp add: reduce_decide appendTl_def)
    then show ?thesis by blast
  next
    case (Recurse sp)
    from parts [of sp] Recurse obtain n1 n2 where
      "\<forall>tlist. reduce (take sp tset) tlist = Ret (tlist @ n1)"
      "\<forall>tlist. reduce (drop sp tset) tlist = Ret (tlist @ n2)" by blast
    with Recurse have "\<forall>tlist. reduce tset tlist = Ret (tlist @ (n1 @ n2))"
      by (simp add: reduce_decide)
    then show ?thesis by blast
  next
    case (AcceptLeft sp)
    from parts [of sp] AcceptLeft obtain n1 n2 where
      "\<forall>tlist. reduce (drop sp tset) tlist = Ret (tlist @ n2)" by blast
    with AcceptLeft have "\<forall>tlist. reduce tset tlist
                            = Ret (tlist @ (appendTl (take sp tset) [] @ n2))"
      by (simp add: reduce_decide appendTl_def)
    then show ?thesis by blast
  next
    case (AcceptRight sp)
    from parts [of sp] AcceptRight obtain n1 n2 where
      "\<forall>tlist. reduce (take sp tset) tlist = Ret (tlist @ n1)" by blast
    with AcceptRight have "\<forall>tlist. reduce tset tlist
                            = Ret (tlist @ (n1 @ appendTl (drop sp tset) []))"
      by (simp add: reduce_decide appendTl_def)
    then show ?thesis by blast
  qed
qed

lemma reduce_tracks: "tset \<noteq> [] \<Longrightarrow> reduce tset tlist = Ret (tlist @ tracks tset)"
proof -
  assume "tset \<noteq> []"
  then obtain new where n: "\<forall>tlist. reduce tset tlist = Ret (tlist @ new)"
    using reduce_total by blast
  then have "reduce tset [] = Ret new" by simp
  then have "tracks tset = new" by (simp add: tracks_def)
  with n show ?thesis by simp
qed





lemma build_m_enumerate:
  "build_m ts i m k =
     m k @ map (\<lambda>(j, x). \<lparr>mjd = fst x, index = j\<rparr>) (filter (\<lambda>(j, x). snd x = k) (enumerate i ts))"
proof (induction ts arbitrary: i m)
  case Nil
  then show ?case by simp
next
  case (Cons x ts)
  obtain d ob where x: "x = (d, ob)" by (cases x)
  have "build_m (x # ts) i m k = build_m ts (Suc i) (m(ob := m ob @ [\<lparr>mjd = d, index = i\<rparr>])) k"
    by (simp add: x)
  also have "\<dots> = (m(ob := m ob @ [\<lparr>mjd = d, index = i\<rparr>])) k
      @ map (\<lambda>(j, x). \<lparr>mjd = fst x, index = j\<rparr>)
          (filter (\<lambda>(j, x). snd x = k) (enumerate (Suc i) ts))"
    by (rule Cons.IH)
  also have "\<dots> = m k @ map (\<lambda>(j, x). \<lparr>mjd = fst x, index = j\<rparr>)
      (filter (\<lambda>(j, x). snd x = k) (enumerate i (x # ts)))"
    by (simp add: x)
  finally show ?case .
qed

lemma build_m_group_of: "build_m ts 0 (\<lambda>k. []) = group_of ts"
proof
  fix k
  have "enumerate 0 ts = enumerate 0 (map (\<lambda>i. ts ! i) [0..<length ts])"
    by (simp add: map_nth)
  also have "\<dots> = map (\<lambda>i. (i, ts ! i)) [0..<length ts]"
    by (rule enumerate_map_upt)
  finally have e: "enumerate 0 ts = map (\<lambda>i. (i, ts ! i)) [0..<length ts]" .
  show "build_m ts 0 (\<lambda>k. []) k = group_of ts k"
    by (simp add: build_m_enumerate e group_of_def filter_map comp_def)
qed

lemma range_m_concat:
  assumes "\<forall>k \<in> set ks. sort_dated u (m k) \<noteq> []"
  shows "range_m u m ks tlist = Ret (tlist @ concat (map (\<lambda>k. tracks (sort_dated u (m k))) ks))"
  using assms by (induction ks arbitrary: tlist) (simp_all add: reduce_tracks)

lemma group_of_nonempty:
  assumes "k \<in> snd ` set ts"
  shows "group_of ts k \<noteq> []"
proof -
  from assms obtain i where "i < length ts" "snd (ts ! i) = k"
    by (auto simp: in_set_conv_nth)
  then have "i \<in> set (filter (\<lambda>i. snd (ts ! i) = k) [0..<length ts])" by simp
  then have "filter (\<lambda>i. snd (ts ! i) = k) [0..<length ts] \<noteq> []"
    by (metis empty_iff empty_set)
  then show ?thesis by (simp add: group_of_def)
qed

lemma sort_dated_nonempty:
  "admissible u \<Longrightarrow> ds \<noteq> [] \<Longrightarrow> sort_dated u ds \<noteq> []"
  by (metis admissible_def mset_zero_iff)

lemma tracklets_eq:
  assumes "admissible u"
  shows "tracklets u ts =
           Ret (concat (map (\<lambda>k. tracks (sort_dated u (group_of ts k)))
                  (range_order u (remdups (map snd ts)))))"
proof -
  have "set (range_order u (remdups (map snd ts))) = snd ` set ts"
    using assms by (metis admissible_def set_mset_mset set_remdups set_map)
  then have "\<forall>k \<in> set (range_order u (remdups (map snd ts))).
               sort_dated u (build_m ts 0 (\<lambda>k. []) k) \<noteq> []"
    using assms by (simp add: build_m_group_of group_of_nonempty sort_dated_nonempty)
  from range_m_concat [OF this] show ?thesis
    by (simp add: tracklets_def build_m_group_of)
qed



lemma perm_length: "mset p = mset [0..<n] \<Longrightarrow> length p = n"
  by (metis length_upt diff_zero size_mset)








section \<open>Tracklets: a group of two observations\<close>

lemma reduce_pair:
  assumes "0.042 \<le> mjd b - mjd a"
    and "\<not> (length [a, b] \<le> 5 \<and> mjd b - mjd a < 0.125)"
  shows "reduce [a, b] tlist =
           (if mjd b - mjd a < 0.5
            then Ret (tlist @ [\<lparr>members = [index a, index b], mean = (mjd a + mjd b) / 2\<rparr>])
            else Ret (tlist @ [\<lparr>members = [index a], mean = mjd a\<rparr>,
                              \<lparr>members = [index b], mean = mjd b\<rparr>]))"
  using assms by (simp add: reduce.simps [of "[a, b]"] appendTl_def)

lemma group_of_key:
  assumes "group_of ts k \<noteq> []"
  shows "k \<in> snd ` set ts"
proof -
  from assms have "filter (\<lambda>i. snd (ts ! i) = k) [0..<length ts] \<noteq> []"
    by (simp add: group_of_def)
  then obtain i where "i < length ts" "snd (ts ! i) = k"
    by (auto simp: filter_empty_conv)
  then show ?thesis by (metis imageI nth_mem)
qed

lemma FindTrackletsIndex_members:
  assumes "admissible u" and "sort_dated u (build_m ts 0 (\<lambda>k. []) k) \<noteq> []"
  shows "\<exists>out. FindTrackletsIndex u ts = Ret out
           \<and> members ` set (tracks (sort_dated u (build_m ts 0 (\<lambda>k. []) k))) \<subseteq> set out"
proof -
  let ?ks = "range_order u (remdups (map snd ts))"
  let ?tl = "concat (map (\<lambda>k. tracks (sort_dated u (group_of ts k))) ?ks)"
  have "group_of ts k \<noteq> []"
    using assms by (metis admissible_def build_m_group_of mset_zero_iff)
  then have "k \<in> snd ` set ts" by (rule group_of_key)
  moreover have "set ?ks = snd ` set ts"
    using assms(1) by (metis admissible_def set_mset_mset set_remdups set_map)
  ultimately have k: "k \<in> set ?ks" by simp
  have t: "tracklets u ts = Ret ?tl" by (rule tracklets_eq [OF assms(1)])
  have "set (sort_tkList u ?tl) = set ?tl"
    using assms(1) by (metis admissible_def set_mset_mset)
  moreover have "set (tracks (sort_dated u (group_of ts k))) \<subseteq> set ?tl"
    using k by auto
  ultimately have "members ` set (tracks (sort_dated u (group_of ts k)))
                     \<subseteq> set (map members (sort_tkList u ?tl))"
    by auto
  then show ?thesis
    by (simp add: FindTrackletsIndex_def t build_m_group_of)
qed

text \<open>
  C8. Let \<open>[a, b]\<close> be the sorted group of an observer with exactly two
  observations, whose span is at least 0.042 day and which the rule for 2 to 5
  observations within 0.125 day does not accept. Then \<^verbatim>\<open>reduce\<close> appends one tracklet
  with the two members when the times differ by less than 0.5 day, and two tracklets
  of one member each otherwise; and these tracklets are in what
  \<^verbatim>\<open>FindTrackletsIndex\<close> returns.
\<close>

theorem two_observation_group:
  assumes "admissible u"
    and "sort_dated u (build_m ts 0 (\<lambda>k. []) k) = [a, b]"
    and "0.042 \<le> mjd b - mjd a"
    and "\<not> (length [a, b] \<le> 5 \<and> mjd b - mjd a < 0.125)"
  shows "reduce [a, b] tlist =
           (if mjd b - mjd a < 0.5
            then Ret (tlist @ [\<lparr>members = [index a, index b], mean = (mjd a + mjd b) / 2\<rparr>])
            else Ret (tlist @ [\<lparr>members = [index a], mean = mjd a\<rparr>,
                              \<lparr>members = [index b], mean = mjd b\<rparr>]))
         \<and> (\<exists>out. FindTrackletsIndex u ts = Ret out
               \<and> (if mjd b - mjd a < 0.5 then [index a, index b] \<in> set out
                   else [index a] \<in> set out \<and> [index b] \<in> set out))"
proof -
  note r = reduce_pair [OF assms(3,4)]
  have tr: "tracks [a, b] =
           (if mjd b - mjd a < 0.5
            then [\<lparr>members = [index a, index b], mean = (mjd a + mjd b) / 2\<rparr>]
            else [\<lparr>members = [index a], mean = mjd a\<rparr>, \<lparr>members = [index b], mean = mjd b\<rparr>])"
    by (simp add: tracks_def r [of "[]"])
  from FindTrackletsIndex_members [OF assms(1), of ts k] assms(2) obtain out where
    o: "FindTrackletsIndex u ts = Ret out" and s: "members ` set (tracks [a, b]) \<subseteq> set out"
    by auto
  from s have "if mjd b - mjd a < 0.5 then [index a, index b] \<in> set out
                   else [index a] \<in> set out \<and> [index b] \<in> set out"
    by (simp add: tr split: if_splits)
  with o r show ?thesis by blast
qed

theorem two_observation_group_witness:
  "reduce [\<lparr>mjd = 57045.2, index = 0\<rparr>, \<lparr>mjd = 57045.6, index = 1\<rparr>] [] =
     Ret [\<lparr>members = [0, 1], mean = 57045.4\<rparr>]
   \<and> FindTrackletsIndex go_fwd [(57045.2, ''F51''), (57045.6, ''F51'')] = Ret [[0, 1]]
   \<and> reduce [\<lparr>mjd = 57045.2, index = 0\<rparr>, \<lparr>mjd = 57046.2, index = 1\<rparr>] [] =
     Ret [\<lparr>members = [0], mean = 57045.2\<rparr>, \<lparr>members = [1], mean = 57046.2\<rparr>]
   \<and> FindTrackletsIndex go_fwd [(57045.2, ''F51''), (57046.2, ''F51'')] = Ret [[0], [1]]"
proof -
  let ?a = "\<lparr>mjd = 57045.2, index = 0\<rparr>"
  let ?b = "\<lparr>mjd = 57045.6, index = 1\<rparr>"
  let ?c = "\<lparr>mjd = 57046.2, index = 1\<rparr>"
  have gb: "sort_dated go_fwd (build_m [(57045.2, ''F51''), (57045.6, ''F51'')] 0 (\<lambda>k. []) ''F51'')
              = [?a, ?b]"
    by (simp add: go_fwd_def)
  have gc: "sort_dated go_fwd (build_m [(57045.2, ''F51''), (57046.2, ''F51'')] 0 (\<lambda>k. []) ''F51'')
              = [?a, ?c]"
    by (simp add: go_fwd_def)
  have b1: "0.042 \<le> mjd ?b - mjd ?a" by simp
  have b2: "\<not> (length [?a, ?b] \<le> 5 \<and> mjd ?b - mjd ?a < 0.125)" by simp
  have c1: "0.042 \<le> mjd ?c - mjd ?a" by simp
  have c2: "\<not> (length [?a, ?c] \<le> 5 \<and> mjd ?c - mjd ?a < 0.125)" by simp
  have fb: "FindTrackletsIndex go_fwd [(57045.2, ''F51''), (57045.6, ''F51'')] = Ret [[0, 1]]"
    by (simp add: tracklet_eval)
  have fc: "FindTrackletsIndex go_fwd [(57045.2, ''F51''), (57046.2, ''F51'')] = Ret [[0], [1]]"
    by (simp add: tracklet_eval)
  show ?thesis
    using two_observation_group [OF go_fwd_admissible gb b1 b2, of "[]"]
      two_observation_group [OF go_fwd_admissible gc c1 c2, of "[]"] fb fc
    by simp
qed

end
